theory Spec2Isabelle
  imports Complex_Main "HOL-Library.Word" "HOL-Library.AList" "HOL-Library.Log_Nat"
begin

unbundle bit_operations_syntax

section \<open>Bytes, errors and Python slicing\<close>

text \<open>
  The parser runs on Python 3 (it uses f-strings), so \<open>PY2\<close> is false throughout: a
  \<open>bytes\<close> object is a sequence of integers 0..255, iterating or indexing it yields
  \<open>int\<close>, slicing it yields \<open>bytes\<close>. Every exception the code can raise is a
  constructor of \<open>error\<close>; \<open>StructError\<close> is \<open>struct.error\<close>.
\<close>

type_synonym byte = "8 word"

datatype error =
    SEGDNotImplemented
  | SEGDScanTypeError
  | StructError
  | IndexError
  | TypeError
  | ValueError
  | ZeroDivisionError
  | KeyError

text \<open>\<open>buf[a:b]\<close> never raises: it is cut at the end of the buffer.\<close>

definition bslice :: "nat \<Rightarrow> nat \<Rightarrow> 'a list \<Rightarrow> 'a list" where
  "bslice a b buf = take (b - a) (drop a buf)"

text \<open>\<open>buf[i]\<close> raises \<open>IndexError\<close> past the end.\<close>

definition index :: "'a list \<Rightarrow> nat \<Rightarrow> error + 'a" where
  "index buf i = (if i < length buf then Inr (buf ! i) else Inl IndexError)"

definition bindE :: "error + 'a \<Rightarrow> ('a \<Rightarrow> error + 'b) \<Rightarrow> error + 'b" where
  "bindE m f = (case m of Inl e \<Rightarrow> Inl e | Inr x \<Rightarrow> f x)"

section \<open>The primitive decoder (decoder.py)\<close>

subsection \<open>Binary coded decimals\<close>

text \<open>
  \<open>Decoder.bcd\<close> receives an \<open>int\<close> here; its only check is \<open>byte > 255\<close>. The two
  nibbles are returned as they are, also when one of them is 10..15.
\<close>

definition bcd :: "nat \<Rightarrow> error + nat \<times> nat" where
  "bcd byte =
     (if byte > 255 then Inl ValueError
      else (let v1 = drop_bit 4 byte; v2 = byte AND 0xF in Inr (v1, v2)))"

text \<open>
  The loop of \<open>decode_bcd\<close>: \<open>n\<close> starts at \<open>2 * len - 1\<close> and goes down by two, the
  accumulator \<open>v\<close> starts at 0.
\<close>

fun decode_bcd_loop :: "nat list \<Rightarrow> int \<Rightarrow> nat \<Rightarrow> error + nat" where
  "decode_bcd_loop [] n v = Inr v"
| "decode_bcd_loop (byte # rest) n v =
     (case bcd byte of
        Inl e \<Rightarrow> Inl e
      | Inr (v1, v2) \<Rightarrow>
          decode_bcd_loop rest (n - 2) (v + v1 * 10 ^ nat n + v2 * 10 ^ nat (n - 1)))"

definition decode_bcd :: "byte list \<Rightarrow> error + nat" where
  "decode_bcd bytes_in =
     decode_bcd_loop (map unat bytes_in) (int (length bytes_in) * 2 - 1) 0"

text \<open>The nibbles of a byte sequence, high nibble first.\<close>

definition nibbles :: "byte list \<Rightarrow> nat list" where
  "nibbles bytes_in = concat (map (\<lambda>b. [unat b div 16, unat b mod 16]) bytes_in)"

text \<open>The value of a list of digits in base 10, most significant first.\<close>

fun digits_value :: "nat list \<Rightarrow> nat" where
  "digits_value [] = 0"
| "digits_value (d # ds) = d * 10 ^ length ds + digits_value ds"

text \<open>The \<open>w\<close> decimal digits of \<open>v\<close>, most significant first, with leading zeros.\<close>

fun dec_digits :: "nat \<Rightarrow> nat \<Rightarrow> nat list" where
  "dec_digits 0 v = []"
| "dec_digits (Suc w) v = (v div 10 ^ w) mod 10 # dec_digits w v"

subsection \<open>Unsigned integers\<close>

text \<open>The big-endian value of a byte sequence.\<close>

definition be_nat :: "byte list \<Rightarrow> nat" where
  "be_nat b = foldl (\<lambda>acc x. acc * 256 + unat x) 0 b"

text \<open>\<open>unpack('>I', b)[0]\<close>: \<open>struct.error\<close> unless \<open>b\<close> has exactly four bytes.\<close>

definition unpack_I :: "byte list \<Rightarrow> error + nat" where
  "unpack_I b = (if length b \<noteq> 4 then Inl StructError else Inr (be_nat b))"

text \<open>
  \<open>chr(0) * (4 - ll)\<close> is the empty string when \<open>4 - ll\<close> is negative, as
  \<open>replicate\<close> on the truncated difference is.
\<close>

definition decode_bin :: "byte list \<Rightarrow> error + nat" where
  "decode_bin bytes_in =
     (let ll = length bytes_in;
          b = replicate (4 - ll) 0 @ bytes_in
      in unpack_I b)"

definition decode_bin_bool :: "byte list \<Rightarrow> error + bool" where
  "decode_bin_bool bytes_in = bindE (decode_bin bytes_in) (\<lambda>b. Inr (b > 0))"

subsection \<open>Binary fractions, in binary64 arithmetic\<close>

text \<open>
  \<open>decode_fraction\<close> sums Python floats. A finite non-negative binary64 value is
  modelled by the rational it denotes, and every operation rounds its exact result to
  the nearest binary64 value, ties to even (\<open>fl64\<close>). Only non-negative values far below
  the overflow threshold occur (the largest is below \<open>2^25\<close>), so neither signs nor
  overflow are modelled.
\<close>

definition round_half_even :: "rat \<Rightarrow> int" where
  "round_half_even x =
     (let f = \<lfloor>x\<rfloor>; r = x - of_int f
      in if r < 1 / 2 then f else if 1 / 2 < r then f + 1
         else if even f then f else f + 1)"

text \<open>\<open>ilog2 x\<close> is the exponent \<open>e\<close> with \<open>2^e \<le> x < 2^(e+1)\<close>, for \<open>x > 0\<close>.\<close>

definition ilog2 :: "rat \<Rightarrow> int" where
  "ilog2 x =
     (let (a, b) = quotient_of x;
          d = int (floorlog 2 (nat a)) - int (floorlog 2 (nat b))
      in if 2 powi d \<le> x then d else d - 1)"

text \<open>
  The spacing of binary64 values around \<open>x\<close> is \<open>2^(e - 52)\<close>, where \<open>e\<close> is the
  exponent of \<open>x\<close>, at least -1022 (below that the values are subnormal).
\<close>

definition fl64 :: "rat \<Rightarrow> rat" where
  "fl64 x =
     (if x = 0 then 0
      else (let e = max (ilog2 x) (- 1022);
                q = 2 powi (e - 52)
            in of_int (round_half_even (x / q)) * q))"

text \<open>\<open>'{:08b}'.format(b)\<close>: the eight bits of a byte, most significant first.\<close>

definition bits8 :: "byte \<Rightarrow> nat list" where
  "bits8 b = map (\<lambda>i. if bit b i then 1 else 0) [7, 6, 5, 4, 3, 2, 1, 0]"

text \<open>
  \<open>sum(int(x) * 2 ** -n for n, x in enumerate(bit, 1))\<close>: \<open>2 ** -n\<close> is a float
  power, the product and each addition are float operations, the sum starts at 0.
\<close>

fun fraction_sum :: "nat list \<Rightarrow> nat \<Rightarrow> rat \<Rightarrow> rat" where
  "fraction_sum [] n acc = acc"
| "fraction_sum (x # bits) n acc =
     fraction_sum bits (n + 1) (fl64 (acc + fl64 (of_nat x * fl64 (1 / 2 ^ n))))"

definition decode_fraction :: "byte list \<Rightarrow> rat" where
  "decode_fraction bytes_in = fraction_sum (concat (map bits8 bytes_in)) 1 0"

subsection \<open>Floats\<close>

text \<open>
  A decoded single or double precision float is kept as its bit pattern; \<open>math.isnan\<close>
  is the test of the pattern (exponent all ones, mantissa not zero).
\<close>

definition unpack_f :: "byte list \<Rightarrow> error + 32 word" where
  "unpack_f b = (if length b \<noteq> 4 then Inl StructError else Inr (of_nat (be_nat b)))"

definition f32_exponent :: "32 word \<Rightarrow> nat" where
  "f32_exponent f = unat (drop_bit 23 f AND 0xFF)"

definition f32_mantissa :: "32 word \<Rightarrow> nat" where
  "f32_mantissa f = unat (f AND 0x7FFFFF)"

definition isnan :: "32 word \<Rightarrow> bool" where
  "isnan f = (f32_exponent f = 255 \<and> f32_mantissa f \<noteq> 0)"

definition decode_flt :: "byte list \<Rightarrow> error + 32 word option" where
  "decode_flt bytes_in =
     (let ll = length bytes_in;
          b = replicate (4 - ll) 0 @ bytes_in
      in bindE (unpack_f b) (\<lambda>f. Inr (if isnan f then None else Some f)))"

text \<open>\<open>unpack('>d', bytes_in)[0]\<close>: \<open>struct.error\<close> unless there are exactly eight bytes.\<close>

definition decode_dbl :: "byte list \<Rightarrow> error + 64 word" where
  "decode_dbl bytes_in =
     (if length bytes_in \<noteq> 8 then Inl StructError else Inr (of_nat (be_nat bytes_in)))"

subsection \<open>Filtered ASCII\<close>

text \<open>The character codes of \<open>string.printable\<close>, in its order.\<close>

definition string_printable :: "nat list" where
  "string_printable =
     [48..<58] @ [97..<123] @ [65..<91] @
     [33..<48] @ [58..<65] @ [91..<97] @ [123..<127] @
     [32, 9, 10, 13, 11, 12]"

text \<open>
  \<open>printable = map(ord, string.printable)\<close> is an iterator in Python 3, and
  \<open>x in printable\<close> advances it: up to and including the first element equal to \<open>x\<close>,
  or to its end when there is none. The first argument is what is left of the iterator.
\<close>

fun decode_asc_loop :: "nat list \<Rightarrow> nat list \<Rightarrow> nat list" where
  "decode_asc_loop printable [] = []"
| "decode_asc_loop printable (x # bytes_ord) =
     (case dropWhile (\<lambda>p. p \<noteq> x) printable of
        [] \<Rightarrow> decode_asc_loop [] bytes_ord
      | p # rest \<Rightarrow> x # decode_asc_loop rest bytes_ord)"

definition decode_asc :: "byte list \<Rightarrow> string option" where
  "decode_asc bytes_in =
     (let s = map char_of (decode_asc_loop string_printable (map unat bytes_in))
      in if s = [] then None else Some s)"

section \<open>The parser object and its byte stream (segd_parser.py)\<close>

text \<open>
  A \<open>SegDParser\<close> holds the open file and the two capture buffers. The file is the list
  of its bytes with a position; \<open>read(n)\<close> returns the next \<open>n\<close> bytes, or fewer at the
  end of the file, and never raises. \<open>stream_closed\<close> is set by \<open>close()\<close> only.
\<close>

record segd_parser =
  byte_stream :: "byte list"
  pos :: nat
  stream_closed :: bool
  header_block :: "byte list"
  traceh_list :: "byte list list"

type_synonym 'a reader = "segd_parser \<Rightarrow> (error + 'a) \<times> segd_parser"

definition stream_read :: "nat \<Rightarrow> segd_parser \<Rightarrow> byte list \<times> segd_parser" where
  "stream_read n p =
     (let buf = take n (drop (pos p) (byte_stream p))
      in (buf, p\<lparr>pos := pos p + length buf\<rparr>))"

text \<open>An exception leaves the parser as it was when it was raised.\<close>

definition bindS :: "'a reader \<Rightarrow> ('a \<Rightarrow> 'b reader) \<Rightarrow> 'b reader" where
  "bindS m f p = (case m p of (Inl e, p') \<Rightarrow> (Inl e, p') | (Inr x, p') \<Rightarrow> f x p')"

text \<open>
  The first two lines of every header reader:
  \<open>buf = self._byte_stream.read(n); self.header_block.extend(bytearray(buf))\<close>.
\<close>

definition read_header_bytes :: "nat \<Rightarrow> segd_parser \<Rightarrow> byte list \<times> segd_parser" where
  "read_header_bytes n p =
     (let (buf, p1) = stream_read n p
      in (buf, p1\<lparr>header_block := header_block p1 @ buf\<rparr>))"

text \<open>\<open>ord(b)\<close> of a \<open>bytes\<close> object: \<open>TypeError\<close> unless it has exactly one byte.\<close>

definition ord :: "byte list \<Rightarrow> error + nat" where
  "ord b = (case b of [x] \<Rightarrow> Inr (unat x) | _ \<Rightarrow> Inl TypeError)"

fun mapE :: "('a \<Rightarrow> error + 'b) \<Rightarrow> 'a list \<Rightarrow> error + 'b list" where
  "mapE f [] = Inr []"
| "mapE f (x # xs) = bindE (f x) (\<lambda>y. bindE (mapE f xs) (\<lambda>ys. Inr (y # ys)))"

subsection \<open>General header block 1\<close>

text \<open>
  \<open>UTCDateTime\<close> belongs to obspy, not to this repository: the model takes as a
  parameter the function that says which exception, if any, its constructor raises on
  \<open>year, julday, hour, minute, second\<close>.
\<close>

type_synonym utc_datetime = "nat \<Rightarrow> nat \<Rightarrow> nat \<Rightarrow> nat \<Rightarrow> nat \<Rightarrow> error option"

record general_hdr1 =
  gh1_file_number :: nat
  gh1_format_code :: nat
  gh1_general_constants :: "nat list"
  gh1_n_additional_blocks :: nat
  gh1_time :: "nat \<times> nat \<times> nat \<times> nat \<times> nat"
  gh1_manufacture_code :: nat
  gh1_manufacture_serial_number :: nat
  gh1_bytes_per_scan :: nat
  gh1_base_scan_interval_in_ms :: rat
  gh1_polarity :: nat
  gh1_record_length :: "nat option"
  gh1_scan_type_per_record :: nat
  gh1_n_channel_sets_per_record :: nat
  gh1_n_sample_skew_32bit_extensions :: nat
  gh1_extended_header_length :: nat
  gh1_external_header_length :: "nat option"

text \<open>
  The body of \<open>_read_general_hdr1\<close> after the read, statement by statement. The format
  check is the second statement; \<open>1. / _bsi\<close> raises \<open>ZeroDivisionError\<close> at 0.
\<close>

definition parse_general_hdr1 :: "utc_datetime \<Rightarrow> byte list \<Rightarrow> error + general_hdr1" where
  "parse_general_hdr1 utc buf =
     bindE (decode_bcd (bslice 0 2 buf)) (\<lambda>file_number.
     bindE (decode_bcd (bslice 2 4 buf)) (\<lambda>format_code'.
     if format_code' \<noteq> 8058 then Inl SEGDNotImplemented else
     bindE (decode_bcd (bslice 2 4 buf)) (\<lambda>format_code.
     bindE (mapE (\<lambda>b. decode_bcd [b]) (bslice 4 10 buf)) (\<lambda>general_constants.
     bindE (decode_bcd (bslice 10 11 buf)) (\<lambda>y.
     bindE (index buf 11) (\<lambda>b11.
     bindE (bcd (unat b11)) (\<lambda>(nblocks, jday').
     bindE (decode_bcd (bslice 12 13 buf)) (\<lambda>j.
     bindE (decode_bcd (bslice 13 14 buf)) (\<lambda>hour.
     bindE (decode_bcd (bslice 14 15 buf)) (\<lambda>min'.
     bindE (decode_bcd (bslice 15 16 buf)) (\<lambda>sec.
     let year = y + 2000; jday = jday' * 100 + j in
     case utc year jday hour min' sec of Some e \<Rightarrow> Inl e | None \<Rightarrow>
     bindE (decode_bcd (bslice 16 17 buf)) (\<lambda>manufacture_code.
     bindE (decode_bcd (bslice 17 19 buf)) (\<lambda>manufacture_serial_number.
     bindE (decode_bcd (bslice 19 22 buf)) (\<lambda>bytes_per_scan.
     bindE (decode_bcd (bslice 22 23 buf)) (\<lambda>bsi'.
     bindE (if bsi' < 10
            then (if bsi' = 0 then Inl ZeroDivisionError else Inr (fl64 (1 / of_nat bsi')))
            else Inr (fl64 (of_nat bsi' / 10))) (\<lambda>bsi.
     bindE (index buf 23) (\<lambda>b23.
     bindE (bcd (unat b23)) (\<lambda>(pol, _).
     bindE (index buf 25) (\<lambda>b25.
     bindE (bcd (unat b25)) (\<lambda>(rec_type, rec_len').
     bindE (decode_bin (bslice 26 27 buf)) (\<lambda>r.
     let rec_len = 0x100 * rec_len' + r in
     bindE (decode_bcd (bslice 27 28 buf)) (\<lambda>scan_type_per_record.
     bindE (decode_bcd (bslice 28 29 buf)) (\<lambda>n_channel_sets_per_record.
     bindE (decode_bcd (bslice 29 30 buf)) (\<lambda>n_sample_skew_32bit_extensions.
     bindE (decode_bcd (bslice 30 31 buf)) (\<lambda>extended_header_length.
     bindE (decode_bcd (bslice 31 32 buf)) (\<lambda>ehl.
     Inr \<lparr>gh1_file_number = file_number,
          gh1_format_code = format_code,
          gh1_general_constants = general_constants,
          gh1_n_additional_blocks = nblocks,
          gh1_time = (year, jday, hour, min', sec),
          gh1_manufacture_code = manufacture_code,
          gh1_manufacture_serial_number = manufacture_serial_number,
          gh1_bytes_per_scan = bytes_per_scan,
          gh1_base_scan_interval_in_ms = bsi,
          gh1_polarity = pol,
          gh1_record_length = (if rec_len = 0xFFF then None else Some rec_len),
          gh1_scan_type_per_record = scan_type_per_record,
          gh1_n_channel_sets_per_record = n_channel_sets_per_record,
          gh1_n_sample_skew_32bit_extensions = n_sample_skew_32bit_extensions,
          gh1_extended_header_length = extended_header_length,
          gh1_external_header_length = (if ehl = 0xFF then None else Some ehl)\<rparr>
     ))))))))))))))))))))))))))"

definition read_general_hdr1 :: "utc_datetime \<Rightarrow> general_hdr1 reader" where
  "read_general_hdr1 utc p =
     (let (buf, p') = read_header_bytes 32 p in (parse_general_hdr1 utc buf, p'))"

subsection \<open>General header blocks 2 and 3\<close>

record general_hdr2 =
  gh2_expanded_file_number :: nat
  gh2_external_header_blocks :: nat
  gh2_segd_revision_number :: rat
  gh2_no_blocks_of_general_trailer :: nat
  gh2_extended_record_length_in_ms :: nat
  gh2_general_header_block_number :: nat

definition parse_general_hdr2 :: "byte list \<Rightarrow> error + general_hdr2" where
  "parse_general_hdr2 buf =
     bindE (decode_bin (bslice 0 3 buf)) (\<lambda>expanded_file_number.
     bindE (decode_bin (bslice 7 9 buf)) (\<lambda>external_header_blocks.
     bindE (ord (bslice 10 11 buf)) (\<lambda>rev'.
     bindE (ord (bslice 11 12 buf)) (\<lambda>rev''.
     let rev = fl64 (of_nat rev' + fl64 (of_nat rev'' / 10)) in
     bindE (decode_bin (bslice 12 14 buf)) (\<lambda>no_blocks_of_general_trailer.
     bindE (decode_bin (bslice 14 17 buf)) (\<lambda>extended_record_length_in_ms.
     bindE (decode_bin (bslice 18 19 buf)) (\<lambda>general_header_block_number.
     Inr \<lparr>gh2_expanded_file_number = expanded_file_number,
          gh2_external_header_blocks = external_header_blocks,
          gh2_segd_revision_number = rev,
          gh2_no_blocks_of_general_trailer = no_blocks_of_general_trailer,
          gh2_extended_record_length_in_ms = extended_record_length_in_ms,
          gh2_general_header_block_number = general_header_block_number\<rparr>)))))))"

definition read_general_hdr2 :: "general_hdr2 reader" where
  "read_general_hdr2 p =
     (let (buf, p') = read_header_bytes 32 p in (parse_general_hdr2 buf, p'))"

record general_hdr3 =
  gh3_expanded_file_number :: nat
  gh3_source_line_number :: rat
  gh3_source_point_number :: rat
  gh3_phase_control :: nat
  gh3_vibrator_type :: nat
  gh3_phase_angle :: nat
  gh3_general_header_block_number :: nat
  gh3_source_set_number :: nat

definition parse_general_hdr3 :: "byte list \<Rightarrow> error + general_hdr3" where
  "parse_general_hdr3 buf =
     bindE (decode_bin (bslice 0 3 buf)) (\<lambda>expanded_file_number.
     bindE (decode_bin (bslice 3 6 buf)) (\<lambda>sln.
     bindE (decode_bin (bslice 8 11 buf)) (\<lambda>spn.
     bindE (decode_bin (bslice 14 15 buf)) (\<lambda>phase_control.
     bindE (decode_bin (bslice 15 16 buf)) (\<lambda>vibrator_type.
     bindE (decode_bin (bslice 16 18 buf)) (\<lambda>phase_angle.
     bindE (decode_bin (bslice 18 19 buf)) (\<lambda>general_header_block_number.
     bindE (decode_bin (bslice 19 20 buf)) (\<lambda>source_set_number.
     Inr \<lparr>gh3_expanded_file_number = expanded_file_number,
          gh3_source_line_number = fl64 (of_nat sln + decode_fraction (bslice 6 8 buf)),
          gh3_source_point_number = fl64 (of_nat spn + decode_fraction (bslice 11 13 buf)),
          gh3_phase_control = phase_control,
          gh3_vibrator_type = vibrator_type,
          gh3_phase_angle = phase_angle,
          gh3_general_header_block_number = general_header_block_number,
          gh3_source_set_number = source_set_number\<rparr>))))))))"

definition read_general_hdr3 :: "general_hdr3 reader" where
  "read_general_hdr3 p =
     (let (buf, p') = read_header_bytes 32 p in (parse_general_hdr3 buf, p'))"

subsection \<open>Scan type headers\<close>

record scan_type_header =
  sch_scan_type_header :: nat
  sch_channel_set_number :: nat
  sch_channel_set_starting_time :: nat
  sch_channel_set_end_time :: nat
  sch_number_of_channels :: nat
  sch_channel_type_id :: nat
  sch_number_of_subscans_exponent :: nat
  sch_channel_gain_control_method :: nat
  sch_alias_filter_freq :: nat
  sch_alias_filter_slope :: nat
  sch_low_cut_filter_freq :: nat
  sch_low_cut_filter_slope :: nat
  sch_first_notch_freq :: nat
  sch_second_notch_freq :: nat
  sch_third_notch_freq :: nat
  sch_extended_channel_set_number :: nat
  sch_extended_header_flag :: nat
  sch_trace_header_extensions :: nat
  sch_vertical_stack :: nat
  sch_streamer_cable_number :: nat
  sch_array_forming :: nat

text \<open>
  \<open>sum(buf) == 0\<close> holds when every byte is zero, and also when the read returned
  nothing. \<open>_dm\<close> is decoded and dropped.
\<close>

definition parse_sch :: "byte list \<Rightarrow> error + scan_type_header" where
  "parse_sch buf =
     (if sum_list (map unat buf) = 0 then Inl SEGDScanTypeError else
     bindE (decode_bcd (bslice 0 1 buf)) (\<lambda>scan_type_header.
     bindE (decode_bcd (bslice 1 2 buf)) (\<lambda>channel_set_number.
     bindE (decode_bin (bslice 2 4 buf)) (\<lambda>channel_set_starting_time.
     bindE (decode_bin (bslice 4 6 buf)) (\<lambda>channel_set_end_time.
     bindE (decode_bin (rev (bslice 6 8 buf))) (\<lambda>dm.
     bindE (decode_bcd (bslice 8 10 buf)) (\<lambda>number_of_channels.
     bindE (index buf 10) (\<lambda>b10.
     bindE (bcd (unat b10)) (\<lambda>(ctid, _).
     bindE (index buf 11) (\<lambda>b11.
     bindE (bcd (unat b11)) (\<lambda>(nse, cgcm).
     bindE (decode_bcd (bslice 12 14 buf)) (\<lambda>alias_filter_freq.
     bindE (decode_bcd (bslice 14 16 buf)) (\<lambda>alias_filter_slope.
     bindE (decode_bcd (bslice 16 18 buf)) (\<lambda>low_cut_filter_freq.
     bindE (decode_bcd (bslice 18 20 buf)) (\<lambda>low_cut_filter_slope.
     bindE (decode_bcd (bslice 20 22 buf)) (\<lambda>first_notch_freq.
     bindE (decode_bcd (bslice 22 24 buf)) (\<lambda>second_notch_freq.
     bindE (decode_bcd (bslice 24 26 buf)) (\<lambda>third_notch_freq.
     bindE (decode_bcd (bslice 26 28 buf)) (\<lambda>extended_channel_set_number.
     bindE (index buf 28) (\<lambda>b28.
     bindE (bcd (unat b28)) (\<lambda>(ehf, the).
     bindE (decode_bin (bslice 29 30 buf)) (\<lambda>vertical_stack.
     bindE (decode_bin (bslice 30 31 buf)) (\<lambda>streamer_cable_number.
     bindE (decode_bin (bslice 31 32 buf)) (\<lambda>array_forming.
     Inr \<lparr>sch_scan_type_header = scan_type_header,
          sch_channel_set_number = channel_set_number,
          sch_channel_set_starting_time = channel_set_starting_time,
          sch_channel_set_end_time = channel_set_end_time,
          sch_number_of_channels = number_of_channels,
          sch_channel_type_id = ctid,
          sch_number_of_subscans_exponent = nse,
          sch_channel_gain_control_method = cgcm,
          sch_alias_filter_freq = alias_filter_freq,
          sch_alias_filter_slope = alias_filter_slope,
          sch_low_cut_filter_freq = low_cut_filter_freq,
          sch_low_cut_filter_slope = low_cut_filter_slope,
          sch_first_notch_freq = first_notch_freq,
          sch_second_notch_freq = second_notch_freq,
          sch_third_notch_freq = third_notch_freq,
          sch_extended_channel_set_number = extended_channel_set_number,
          sch_extended_header_flag = ehf,
          sch_trace_header_extensions = the,
          sch_vertical_stack = vertical_stack,
          sch_streamer_cable_number = streamer_cable_number,
          sch_array_forming = array_forming\<rparr>))))))))))))))))))))))))"

definition read_sch :: "scan_type_header reader" where
  "read_sch p = (let (buf, p') = read_header_bytes 32 p in (parse_sch buf, p'))"

text \<open>
  The loop of \<open>read_segd\<close> that fills the dictionary \<open>sch\<close>
  (\<open>for n in range(n_channel_sets_per_record)\<close>). A dictionary keeps its keys in the
  order of their first insertion and a second insertion under a key replaces the value:
  an association list under \<open>AList.update\<close>. \<open>SEGDScanTypeError\<close> is caught and the
  loop goes on; every other exception leaves the loop.
\<close>

type_synonym sch_table = "(nat \<times> scan_type_header) list"

fun read_sch_loop :: "nat \<Rightarrow> sch_table \<Rightarrow> sch_table reader" where
  "read_sch_loop 0 sch p = (Inr sch, p)"
| "read_sch_loop (Suc n) sch p =
     (case read_sch p of
        (Inl SEGDScanTypeError, p') \<Rightarrow> read_sch_loop n sch p'
      | (Inl e, p') \<Rightarrow> (Inl e, p')
      | (Inr sch', p') \<Rightarrow>
          read_sch_loop n (AList.update (sch_channel_set_number sch') sch' sch) p')"

subsection \<open>Extended and external header\<close>

text \<open>
  Of the fields of the extended header the record keeps those that \<open>read_segd\<close> reads
  afterwards and the two doubles. Every other field is decoded by \<open>decode_bin\<close>,
  \<open>decode_bin_bool\<close> or \<open>decode_flt\<close> on a bslice of at most four bytes, or by
  \<open>decode_asc\<close>, and none of these calls can raise; \<open>decode_dbl\<close> raises when the
  buffer ends before byte 588.
\<close>

record extended_header =
  extdh_sample_rate_in_us :: nat
  extdh_total_number_of_traces :: nat
  extdh_number_of_samples_in_trace :: nat
  extdh_source_easting :: "64 word"
  extdh_source_northing :: "64 word"

definition parse_extended_header :: "byte list \<Rightarrow> error + extended_header" where
  "parse_extended_header buf =
     bindE (decode_bin (bslice 4 8 buf)) (\<lambda>sample_rate_in_us.
     bindE (decode_bin (bslice 8 12 buf)) (\<lambda>total_number_of_traces.
     bindE (decode_bin (bslice 32 36 buf)) (\<lambda>number_of_samples_in_trace.
     bindE (decode_dbl (bslice 572 580 buf)) (\<lambda>source_easting.
     bindE (decode_dbl (bslice 580 588 buf)) (\<lambda>source_northing.
     Inr \<lparr>extdh_sample_rate_in_us = sample_rate_in_us,
          extdh_total_number_of_traces = total_number_of_traces,
          extdh_number_of_samples_in_trace = number_of_samples_in_trace,
          extdh_source_easting = source_easting,
          extdh_source_northing = source_northing\<rparr>)))))"

definition read_extended_header :: "nat \<Rightarrow> extended_header reader" where
  "read_extended_header size' p =
     (let (buf, p') = read_header_bytes size' p in (parse_extended_header buf, p'))"

definition read_external_header :: "nat \<Rightarrow> string option reader" where
  "read_external_header size' p =
     (let (buf, p') = read_header_bytes size' p in (Inr (decode_asc buf), p'))"

text \<open>
  The size of the external header in \<open>read_segd\<close>: \<open>ext_hdr_lng\<close> is
  \<open>external_header_length\<close>, replaced by \<open>external_header_blocks\<close> when it equals 165;
  \<open>None * 32\<close> raises \<open>TypeError\<close>.
\<close>

definition external_header_size :: "general_hdr1 \<Rightarrow> general_hdr2 \<Rightarrow> error + nat" where
  "external_header_size gh1 gh2 =
     (let ext_hdr_lng = gh1_external_header_length gh1;
          ext_hdr_lng = (if ext_hdr_lng = Some 165 then Some (gh2_external_header_blocks gh2)
                         else ext_hdr_lng)
      in case ext_hdr_lng of None \<Rightarrow> Inl TypeError | Some l \<Rightarrow> Inr (l * 32))"

subsection \<open>Trace header\<close>

record trace_header =
  th_file_number :: "nat option"
  th_scan_type_number :: nat
  th_channel_set_number :: nat
  th_trace_number :: nat
  th_first_timing_word_in_ms :: rat
  th_trace_header_extension :: nat
  th_sample_skew :: nat
  th_trace_edit :: nat
  th_time_break_window :: rat
  th_extended_channel_set_number :: nat
  th_extended_file_number :: nat

definition parse_traceh :: "byte list \<Rightarrow> error + trace_header" where
  "parse_traceh buf =
     bindE (decode_bcd (bslice 0 2 buf)) (\<lambda>fn.
     bindE (decode_bcd (bslice 2 3 buf)) (\<lambda>scan_type_number.
     bindE (decode_bcd (bslice 3 4 buf)) (\<lambda>channel_set_number.
     bindE (decode_bcd (bslice 4 6 buf)) (\<lambda>trace_number.
     bindE (decode_bin (bslice 6 9 buf)) (\<lambda>ftw.
     bindE (decode_bin (bslice 9 10 buf)) (\<lambda>trace_header_extension.
     bindE (decode_bin (bslice 10 11 buf)) (\<lambda>sample_skew.
     bindE (decode_bin (bslice 11 12 buf)) (\<lambda>trace_edit.
     bindE (decode_bin (bslice 12 14 buf)) (\<lambda>tbw.
     bindE (decode_bin (bslice 14 15 buf)) (\<lambda>tbw'.
     bindE (decode_bin (bslice 15 16 buf)) (\<lambda>extended_channel_set_number.
     bindE (decode_bin (bslice 17 20 buf)) (\<lambda>extended_file_number.
     Inr \<lparr>th_file_number = (if fn = 0xFFFF then None else Some fn),
          th_scan_type_number = scan_type_number,
          th_channel_set_number = channel_set_number,
          th_trace_number = trace_number,
          th_first_timing_word_in_ms = fl64 (fl64 (of_nat ftw * 1) / 256),
          th_trace_header_extension = trace_header_extension,
          th_sample_skew = sample_skew,
          th_trace_edit = trace_edit,
          th_time_break_window = fl64 (of_nat tbw + fl64 (of_nat tbw' / 100)),
          th_extended_channel_set_number = extended_channel_set_number,
          th_extended_file_number = extended_file_number\<rparr>))))))))))))"

text \<open>\<open>buf = self._byte_stream.read(20); self.traceh_list.append(bytearray(buf))\<close>\<close>

definition read_traceh :: "trace_header reader" where
  "read_traceh p =
     (let (buf, p1) = stream_read 20 p;
          p2 = p1\<lparr>traceh_list := traceh_list p1 @ [buf]\<rparr>
      in (parse_traceh buf, p2))"

subsection \<open>Trace header extension blocks\<close>

text \<open>
  One constructor for each of the seven blocks, its arguments the fields in the order
  in which the reader sets them. The field names of the seven blocks and of the trace
  header are pairwise different, so \<open>traceh.update\<close> adds the fields of a block
  behind those already there: the merged dictionary is the trace header followed by the
  list of the blocks read, in the order they were read.
\<close>

datatype traceh_eb =
    EB1 "nat option" "nat option" nat nat
  | EB2 "64 word" "64 word" "32 word option" nat nat nat
  | EB3 "32 word option" "32 word option" "32 word option" "32 word option"
        "32 word option" bool bool
  | EB4 "32 word option" "32 word option" "32 word option" "32 word option"
        "32 word option" "32 word option" bool bool
  | EB5 "32 word option" "32 word option" "64 word" "64 word" bool nat "32 word option"
  | EB6 nat nat nat nat nat "32 word option"
  | EB7 "32 word option" nat nat nat

definition parse_traceh_eb1 :: "byte list \<Rightarrow> error + traceh_eb" where
  "parse_traceh_eb1 buf =
     bindE (decode_bin (bslice 0 3 buf)) (\<lambda>rln.
     bindE (decode_bin (bslice 3 6 buf)) (\<lambda>rpn.
     bindE (decode_bin (bslice 6 7 buf)) (\<lambda>receiver_point_index.
     bindE (decode_bin (bslice 7 10 buf)) (\<lambda>number_of_samples_per_trace.
     Inr (EB1 (if rln = 0xFFFFFF then None else Some rln)
              (if rpn = 0xFFFFFF then None else Some rpn)
              receiver_point_index number_of_samples_per_trace)))))"

definition parse_traceh_eb2 :: "byte list \<Rightarrow> error + traceh_eb" where
  "parse_traceh_eb2 buf =
     bindE (decode_dbl (bslice 0 8 buf)) (\<lambda>receiver_point_easting.
     bindE (decode_dbl (bslice 8 16 buf)) (\<lambda>receiver_point_northing.
     bindE (decode_flt (bslice 16 20 buf)) (\<lambda>receiver_point_elevation.
     bindE (decode_bin (bslice 20 21 buf)) (\<lambda>sensor_type_number.
     bindE (decode_bin (bslice 24 28 buf)) (\<lambda>dsd_identification_number.
     bindE (decode_bin (bslice 28 32 buf)) (\<lambda>extended_trace_number.
     Inr (EB2 receiver_point_easting receiver_point_northing receiver_point_elevation
              sensor_type_number dsd_identification_number extended_trace_number)))))))"

definition parse_traceh_eb3 :: "byte list \<Rightarrow> error + traceh_eb" where
  "parse_traceh_eb3 buf =
     bindE (decode_flt (bslice 0 4 buf)) (\<lambda>resistance_low_limit.
     bindE (decode_flt (bslice 4 8 buf)) (\<lambda>resistance_high_limit.
     bindE (decode_flt (bslice 8 12 buf)) (\<lambda>resistance_value.
     bindE (decode_flt (bslice 12 16 buf)) (\<lambda>tilt_limit.
     bindE (decode_flt (bslice 16 20 buf)) (\<lambda>tilt_value.
     bindE (decode_bin_bool (bslice 20 21 buf)) (\<lambda>resistance_error.
     bindE (decode_bin_bool (bslice 21 22 buf)) (\<lambda>tilt_error.
     Inr (EB3 resistance_low_limit resistance_high_limit resistance_value tilt_limit
              tilt_value resistance_error tilt_error))))))))"

definition parse_traceh_eb4 :: "byte list \<Rightarrow> error + traceh_eb" where
  "parse_traceh_eb4 buf =
     bindE (decode_flt (bslice 0 4 buf)) (\<lambda>capacitance_low_limit.
     bindE (decode_flt (bslice 4 8 buf)) (\<lambda>capacitance_high_limit.
     bindE (decode_flt (bslice 8 12 buf)) (\<lambda>capacitance_value.
     bindE (decode_flt (bslice 12 16 buf)) (\<lambda>cutoff_low_limit.
     bindE (decode_flt (bslice 16 20 buf)) (\<lambda>cutoff_high_limit.
     bindE (decode_flt (bslice 20 24 buf)) (\<lambda>cutoff_value.
     bindE (decode_bin_bool (bslice 24 25 buf)) (\<lambda>capacitance_error.
     bindE (decode_bin_bool (bslice 25 26 buf)) (\<lambda>cutoff_error.
     Inr (EB4 capacitance_low_limit capacitance_high_limit capacitance_value
              cutoff_low_limit cutoff_high_limit cutoff_value
              capacitance_error cutoff_error)))))))))"

definition parse_traceh_eb5 :: "byte list \<Rightarrow> error + traceh_eb" where
  "parse_traceh_eb5 buf =
     bindE (decode_flt (bslice 0 4 buf)) (\<lambda>leakage_limit.
     bindE (decode_flt (bslice 4 8 buf)) (\<lambda>leakage_value.
     bindE (decode_dbl (bslice 8 16 buf)) (\<lambda>instrument_longitude.
     bindE (decode_dbl (bslice 16 24 buf)) (\<lambda>instrument_latitude.
     bindE (decode_bin_bool (bslice 24 25 buf)) (\<lambda>leakage_error.
     bindE (decode_bin (bslice 25 28 buf)) (\<lambda>instrument_horizontal_position_accuracy.
     bindE (decode_flt (bslice 28 32 buf)) (\<lambda>instrument_elevation.
     Inr (EB5 leakage_limit leakage_value instrument_longitude instrument_latitude
              leakage_error instrument_horizontal_position_accuracy
              instrument_elevation))))))))"

definition parse_traceh_eb6 :: "byte list \<Rightarrow> error + traceh_eb" where
  "parse_traceh_eb6 buf =
     bindE (decode_bin (bslice 0 1 buf)) (\<lambda>ut.
     bindE (decode_bin (bslice 1 4 buf)) (\<lambda>unit_serial_number.
     bindE (decode_bin (bslice 4 5 buf)) (\<lambda>channel_number.
     bindE (decode_bin (bslice 8 9 buf)) (\<lambda>assembly_type.
     bindE (decode_bin (bslice 9 12 buf)) (\<lambda>assembly_serial_number.
     bindE (decode_bin (bslice 12 13 buf)) (\<lambda>location_in_assembly.
     bindE (decode_bin (bslice 16 17 buf)) (\<lambda>st.
     bindE (decode_bin (bslice 17 18 buf)) (\<lambda>ct.
     bindE (decode_flt (bslice 20 24 buf)) (\<lambda>sensor_sensitivity.
     Inr (EB6 unit_serial_number channel_number assembly_type assembly_serial_number
              location_in_assembly sensor_sensitivity))))))))))"

definition parse_traceh_eb7 :: "byte list \<Rightarrow> error + traceh_eb" where
  "parse_traceh_eb7 buf =
     bindE (decode_bin (bslice 0 1 buf)) (\<lambda>cut.
     bindE (decode_flt (bslice 16 20 buf)) (\<lambda>trace_max_value.
     bindE (decode_bin (bslice 20 24 buf)) (\<lambda>trace_max_time_in_us.
     bindE (decode_bin (bslice 24 28 buf)) (\<lambda>number_of_interpolations.
     bindE (decode_bin (bslice 28 32 buf)) (\<lambda>seismic_trace_offset_value.
     Inr (EB7 trace_max_value trace_max_time_in_us number_of_interpolations
              seismic_trace_offset_value))))))"

text \<open>
  \<open>buf = self._byte_stream.read(32); self.traceh_list[-1].extend(bytearray(buf))\<close>:
  \<open>traceh_list[-1]\<close> raises \<open>IndexError\<close> on the empty list.
\<close>

definition read_eb_bytes :: "byte list reader" where
  "read_eb_bytes p =
     (let (buf, p1) = stream_read 32 p
      in if traceh_list p1 = [] then (Inl IndexError, p1)
         else (Inr buf, p1\<lparr>traceh_list :=
                  butlast (traceh_list p1) @ [last (traceh_list p1) @ buf]\<rparr>))"

text \<open>
  \<open>_read_traceh_eb[n]()\<close>: the list has the seven readers, in the order 1 to 7;
  indexing it at 7 or more raises \<open>IndexError\<close> before anything is read.
\<close>

definition parse_traceh_eb :: "nat \<Rightarrow> byte list \<Rightarrow> error + traceh_eb" where
  "parse_traceh_eb n buf =
     (if n = 0 then parse_traceh_eb1 buf
      else if n = 1 then parse_traceh_eb2 buf
      else if n = 2 then parse_traceh_eb3 buf
      else if n = 3 then parse_traceh_eb4 buf
      else if n = 4 then parse_traceh_eb5 buf
      else if n = 5 then parse_traceh_eb6 buf
      else parse_traceh_eb7 buf)"

definition read_traceh_eb :: "nat \<Rightarrow> traceh_eb reader" where
  "read_traceh_eb n p =
     (if 7 \<le> n then (Inl IndexError, p)
      else bindS read_eb_bytes (\<lambda>buf p'. (parse_traceh_eb n buf, p')) p)"

text \<open>
  \<open>for n in range(th_ext): traceh.update(_read_traceh_eb[n]())\<close>: \<open>n\<close> is the index of
  the next block, \<open>k\<close> the number of blocks still to read.
\<close>

fun read_traceh_ebs :: "nat \<Rightarrow> nat \<Rightarrow> traceh_eb list \<Rightarrow> traceh_eb list reader" where
  "read_traceh_ebs n 0 ebs p = (Inr ebs, p)"
| "read_traceh_ebs n (Suc k) ebs p =
     (case read_traceh_eb n p of
        (Inl e, p') \<Rightarrow> (Inl e, p')
      | (Inr eb, p') \<Rightarrow> read_traceh_ebs (Suc n) k (ebs @ [eb]) p')"

subsection \<open>Trace data\<close>

text \<open>
  \<open>array('f').fromstring(tmp)\<close> raises \<open>ValueError\<close> unless the length of \<open>tmp\<close> is a
  multiple of 4; after \<open>byteswap\<close> every four bytes are one big-endian single precision
  float, kept as its bit pattern.
\<close>

fun unpack_floats :: "byte list \<Rightarrow> 32 word list" where
  "unpack_floats (a # b # c # d # rest) = of_nat (be_nat [a, b, c, d]) # unpack_floats rest"
| "unpack_floats _ = []"

definition read_trace_data :: "nat \<Rightarrow> 32 word list reader" where
  "read_trace_data size' p =
     (let (tmp, p') = stream_read (size' * 4) p
      in if length tmp mod 4 \<noteq> 0 then (Inl ValueError, p')
         else (Inr (unpack_floats tmp), p'))"

definition read_trace_data_block ::
    "nat \<Rightarrow> (trace_header \<times> traceh_eb list \<times> 32 word list) reader" where
  "read_trace_data_block size' =
     bindS read_traceh (\<lambda>traceh.
     bindS (read_traceh_ebs 0 (th_trace_header_extension traceh) []) (\<lambda>ebs.
     bindS (read_trace_data size') (\<lambda>data p.
     (Inr (traceh, ebs, data), p))))"

subsection \<open>The value of a single precision float\<close>

text \<open>
  The rational a bit pattern denotes; \<open>None\<close> for the infinities and NaN.
\<close>

definition f32_value :: "32 word \<Rightarrow> rat option" where
  "f32_value f =
     (let e = f32_exponent f; m = f32_mantissa f;
          s = (if bit f 31 then - 1 else 1)
      in if e = 255 then None
         else if e = 0 then Some (s * of_nat m * 2 powi (- 149))
         else Some (s * of_nat (2 ^ 23 + m) * 2 powi (int e - 150)))"

text \<open>
  \<open>np.mod(x, 1) == 0\<close> on one sample. The remainder of a finite \<open>x\<close> is zero exactly
  when \<open>x\<close> is a whole number; for an infinity or NaN it is NaN, and \<open>NaN == 0\<close> is
  false.
\<close>

definition mod1_is_zero :: "32 word \<Rightarrow> bool" where
  "mod1_is_zero f =
     (case f32_value f of None \<Rightarrow> False | Some x \<Rightarrow> x - of_int \<lfloor>x\<rfloor> = 0)"

subsection \<open>The decode: \<open>read_segd\<close>\<close>

definition band_code :: "rat \<Rightarrow> string option" where
  "band_code sample_rate =
     (if sample_rate \<ge> 1000 then Some ''G''
      else if sample_rate \<ge> 250 then Some ''D''
      else if sample_rate \<ge> 80 then Some ''E''
      else if sample_rate \<ge> 10 then Some ''S''
      else None)"

record segd_headers =
  generalh1 :: general_hdr1
  generalh2 :: general_hdr2
  generalh3 :: general_hdr3
  sch :: sch_table
  extdh :: extended_header
  extrh :: "string option"

text \<open>
  The statements of \<open>read_segd\<close> from the first general header to the external header.
  \<open>generalh\<close> is the three general headers; the keys that \<open>read_segd\<close> looks up in it
  afterwards are each set by one of the three only.
\<close>

definition read_headers :: "utc_datetime \<Rightarrow> segd_headers reader" where
  "read_headers utc =
     bindS (read_general_hdr1 utc) (\<lambda>gh1.
     bindS read_general_hdr2 (\<lambda>gh2.
     bindS read_general_hdr3 (\<lambda>gh3.
     bindS (read_sch_loop (gh1_n_channel_sets_per_record gh1) []) (\<lambda>sch'.
     bindS (read_extended_header (gh1_extended_header_length gh1 * 32)) (\<lambda>extdh'.
     bindS (\<lambda>p. (external_header_size gh1 gh2, p)) (\<lambda>size'.
     bindS (read_external_header size') (\<lambda>extrh' p.
     (Inr \<lparr>generalh1 = gh1, generalh2 = gh2, generalh3 = gh3, sch = sch',
           extdh = extdh', extrh = extrh'\<rparr>, p))))))))"

text \<open>
  A trace appended to the stream \<open>st\<close>. Its \<open>stats.segd\<close> is the merge of the general,
  extended and external headers, which are those of the record, with the scan type
  header of the trace's channel set and the trace header with its extension blocks.
  The containers \<open>Trace\<close> and \<open>Stream\<close> belong to obspy; their calls are taken not to
  raise.
\<close>

record trace =
  tr_data :: "32 word list"
  tr_channel :: "string option"
  tr_delta :: rat
  tr_sch :: scan_type_header
  tr_traceh :: trace_header
  tr_traceh_ebs :: "traceh_eb list"

text \<open>
  The loop over the trace blocks. \<open>1. / sample_rate\<close> raises \<open>ZeroDivisionError\<close> at
  0.0, \<open>sch[channel_set_number]\<close> in \<open>_build_segd_header\<close> raises \<open>KeyError\<close>.
\<close>

fun read_traces_loop ::
    "segd_headers \<Rightarrow> rat \<Rightarrow> nat \<Rightarrow> nat \<Rightarrow> trace list \<Rightarrow> bool \<Rightarrow> (trace list \<times> bool) reader" where
  "read_traces_loop h sample_rate size' 0 st convert_to_int p = (Inr (st, convert_to_int), p)"
| "read_traces_loop h sample_rate size' (Suc n) st convert_to_int p =
     (case read_trace_data_block size' p of
        (Inl e, p') \<Rightarrow> (Inl e, p')
      | (Inr (traceh, ebs, data), p') \<Rightarrow>
          (let convert_to_int' = (convert_to_int \<and> list_all mod1_is_zero data)
           in if sample_rate = 0 then (Inl ZeroDivisionError, p')
              else (case map_of (sch h) (th_channel_set_number traceh) of
                      None \<Rightarrow> (Inl KeyError, p')
                    | Some sch' \<Rightarrow>
                        read_traces_loop h sample_rate size' n
                          (st @ [\<lparr>tr_data = data,
                                  tr_channel = band_code (fl64 (1 / sample_rate)),
                                  tr_delta = sample_rate,
                                  tr_sch = sch',
                                  tr_traceh = traceh,
                                  tr_traceh_ebs = ebs\<rparr>])
                          convert_to_int' p')))"

definition read_traces :: "segd_headers \<Rightarrow> (trace list \<times> bool) reader" where
  "read_traces h =
     (let sample_rate = fl64 (of_nat (extdh_sample_rate_in_us (extdh h)) / 1000000);
          npts = extdh_number_of_samples_in_trace (extdh h);
          size' = npts
      in read_traces_loop h sample_rate size' (extdh_total_number_of_traces (extdh h)) [] True)"

text \<open>Everything \<open>read_segd\<close> does between \<open>open\<close> and \<open>close\<close>.\<close>

definition read_blocks :: "utc_datetime \<Rightarrow> (segd_headers \<times> trace list \<times> bool) reader" where
  "read_blocks utc =
     bindS (read_headers utc) (\<lambda>h.
     bindS (read_traces h) (\<lambda>(st, convert_to_int) p.
     (Inr (h, st, convert_to_int), p)))"

text \<open>
  \<open>self.traces_data[i, :] = np.asarray(st[i].data)\<close> on a row of \<open>npts\<close> zeros: the
  data must have \<open>npts\<close> values, or one value, which then fills the row; otherwise numpy
  raises \<open>ValueError\<close>. The conversion to double precision keeps every value.
\<close>

definition assign_row :: "nat \<Rightarrow> 32 word list \<Rightarrow> error + 32 word list" where
  "assign_row npts data =
     (if length data = npts then Inr data
      else if length data = 1 then Inr (replicate npts (hd data))
      else Inl ValueError)"

record segd_result =
  res_headers :: segd_headers
  res_st :: "trace list"
  res_traces_data :: "32 word list list"
  res_convert_to_int :: bool

text \<open>
  \<open>read_segd\<close> on a parser whose file has the contents \<open>file\<close>. The only \<open>close()\<close> is
  the statement after the loop over the trace blocks. The last statement converts the
  data of the traces in \<open>st\<close> when \<open>convert_to_int\<close> holds; \<open>st\<close> is a local variable
  and is not returned.
\<close>

definition read_segd :: "utc_datetime \<Rightarrow> byte list \<Rightarrow> segd_result reader" where
  "read_segd utc file p0 =
     (let p = p0\<lparr>byte_stream := file, pos := 0, stream_closed := False\<rparr>
      in case read_blocks utc p of
           (Inl e, p') \<Rightarrow> (Inl e, p')
         | (Inr (h, st, convert_to_int), p') \<Rightarrow>
             (let p'' = p'\<lparr>stream_closed := True\<rparr>
              in case mapE (assign_row (extdh_number_of_samples_in_trace (extdh h)))
                        (map tr_data st) of
                   Inl e \<Rightarrow> (Inl e, p'')
                 | Inr traces_data \<Rightarrow>
                     (Inr \<lparr>res_headers = h, res_st = st, res_traces_data = traces_data,
                           res_convert_to_int = convert_to_int\<rparr>, p'')))"

text \<open>A parser as \<open>__init__\<close> leaves it.\<close>

definition new_parser :: segd_parser where
  "new_parser = \<lparr>byte_stream = [], pos = 0, stream_closed = True, header_block = [], traceh_list = []\<rparr>"

section \<open>Notions used to state the properties\<close>

text \<open>A block of zero bytes only.\<close>

definition all_zero :: "byte list \<Rightarrow> bool" where
  "all_zero buf = list_all (\<lambda>b. b = 0) buf"

text \<open>
  The \<open>i\<close>-th 32-byte block from the position of the parser on, and the first \<open>N\<close> of
  them: the scan type blocks, when the parser stands behind the third general header.
\<close>

definition block32 :: "segd_parser \<Rightarrow> nat \<Rightarrow> byte list" where
  "block32 p i = take 32 (drop (pos p + 32 * i) (byte_stream p))"

definition sch_blocks :: "nat \<Rightarrow> segd_parser \<Rightarrow> byte list list" where
  "sch_blocks N p = map (block32 p) [0..<N]"

text \<open>The channel set number a scan type block carries: the BCD value of its byte 1.\<close>

definition block_channel_set_number :: "byte list \<Rightarrow> nat" where
  "block_channel_set_number buf = digits_value (nibbles (bslice 1 2 buf))"

text \<open>The channel set numbers of the blocks that are not all zero, in the order of the blocks.\<close>

definition sch_keys :: "nat \<Rightarrow> segd_parser \<Rightarrow> nat list" where
  "sch_keys N p =
     map block_channel_set_number (filter (\<lambda>buf. \<not> all_zero buf) (sch_blocks N p))"

text \<open>A key enters a dictionary behind the keys it has, unless it is one of them.\<close>

definition add_key :: "nat list \<Rightarrow> nat \<Rightarrow> nat list" where
  "add_key ks k = (if k \<in> set ks then ks else ks @ [k])"

text \<open>Which of the seven extension blocks a decoded block is.\<close>

fun eb_number :: "traceh_eb \<Rightarrow> nat" where
  "eb_number (EB1 _ _ _ _) = 1"
| "eb_number (EB2 _ _ _ _ _ _) = 2"
| "eb_number (EB3 _ _ _ _ _ _ _) = 3"
| "eb_number (EB4 _ _ _ _ _ _ _ _) = 4"
| "eb_number (EB5 _ _ _ _ _ _ _) = 5"
| "eb_number (EB6 _ _ _ _ _ _) = 6"
| "eb_number (EB7 _ _ _ _) = 7"

text \<open>
  The \<open>i\<close>-th extension block of the trace block that starts at the position of the
  parser: 32 bytes behind the 20 bytes of the trace header and \<open>i\<close> earlier blocks.
\<close>

definition eb_block :: "segd_parser \<Rightarrow> nat \<Rightarrow> byte list" where
  "eb_block p i = take 32 (drop (pos p + 20 + 32 * i) (byte_stream p))"

text \<open>A reader that leaves the stream open or closed as it finds it.\<close>

definition keeps_closed :: "'a reader \<Rightarrow> bool" where
  "keeps_closed m = (\<forall>p. stream_closed (snd (m p)) = stream_closed p)"

text \<open>The value of a list of bits, most significant first.\<close>

fun bits_value :: "nat list \<Rightarrow> nat" where
  "bits_value [] = 0"
| "bits_value (x # xs) = x * 2 ^ length xs + bits_value xs"

text \<open>
  A small record: general header 1 (format code 8058, one channel set, an extended
  header of 19 blocks, no external header), general headers 2 and 3, one scan type
  header for channel set 1, the extended header (sample rate 1000 microseconds, 2
  traces of 2 samples) and two trace blocks without extension blocks, the first with the
  samples 1.0 and 2.0, the second with 0.5 and 3.0.
\<close>

definition sample_record :: "byte list" where
  "sample_record =
     [0x00, 0x01, 0x80, 0x58, 0, 0, 0, 0, 0, 0, 0x20, 0x21, 0x23, 0x12, 0x34, 0x56,
      0x13, 0, 0, 0, 0, 0, 0x10, 0, 0, 0x8F, 0xFF, 0x01, 0x01, 0, 0x19, 0x00] @
     replicate 32 0 @
     replicate 32 0 @
     (0x01 # 0x01 # replicate 30 0) @
     (replicate 4 0 @ [0, 0, 0x03, 0xE8] @ [0, 0, 0, 2] @ replicate 20 0 @ [0, 0, 0, 2] @
      replicate 572 0) @
     (replicate 3 0 @ [0x01] @ replicate 16 0) @ [0x3F, 0x80, 0, 0, 0x40, 0, 0, 0] @
     (replicate 3 0 @ [0x01] @ replicate 16 0) @ [0x3F, 0, 0, 0, 0x40, 0x40, 0, 0]"

text \<open>
  The same record with an external header: byte 31 of general header 1 is \<open>0xFF\<close>,
  bytes 7 and 8 of general header 2 give 2 external header blocks, and the 64 bytes of
  the external header stand between the extended header and the first trace block. They
  are 64 characters in the order of \<open>string.printable\<close>, which \<open>decode_asc\<close> returns
  all.
\<close>

definition sample_record_ext :: "byte list" where
  "sample_record_ext =
     [0x00, 0x01, 0x80, 0x58, 0, 0, 0, 0, 0, 0, 0x20, 0x21, 0x23, 0x12, 0x34, 0x56,
      0x13, 0, 0, 0, 0, 0, 0x10, 0, 0, 0x8F, 0xFF, 0x01, 0x01, 0, 0x19, 0xFF] @
     (replicate 7 0 @ [0x00, 0x02] @ replicate 23 0) @
     replicate 32 0 @
     (0x01 # 0x01 # replicate 30 0) @
     (replicate 4 0 @ [0, 0, 0x03, 0xE8] @ [0, 0, 0, 2] @ replicate 20 0 @ [0, 0, 0, 2] @
      replicate 572 0) @
     [0x30, 0x31, 0x32, 0x33, 0x34, 0x35, 0x36, 0x37, 0x38, 0x39, 0x61, 0x62, 0x63, 0x64,
      0x65, 0x66, 0x67, 0x68, 0x69, 0x6A, 0x6B, 0x6C, 0x6D, 0x6E, 0x6F, 0x70, 0x71, 0x72,
      0x73, 0x74, 0x75, 0x76, 0x77, 0x78, 0x79, 0x7A, 0x41, 0x42, 0x43, 0x44, 0x45, 0x46,
      0x47, 0x48, 0x49, 0x4A, 0x4B, 0x4C, 0x4D, 0x4E, 0x4F, 0x50, 0x51, 0x52, 0x53, 0x54,
      0x55, 0x56, 0x57, 0x58, 0x59, 0x5A, 0x21, 0x23] @
     (replicate 3 0 @ [0x01] @ replicate 16 0) @ [0x3F, 0x80, 0, 0, 0x40, 0, 0, 0] @
     (replicate 3 0 @ [0x01] @ replicate 16 0) @ [0x3F, 0, 0, 0, 0x40, 0x40, 0, 0]"

section \<open>Properties of the primitive decoder\<close>

subsection \<open>Binary coded decimals\<close>

lemma and_15_nat: "(byte::nat) AND 0xF = byte mod 16"
  using take_bit_eq_mask[of 4 byte] by (simp add: take_bit_eq_mod mask_eq_exp_minus_1)

lemma bcd_unat: "bcd (unat (b::byte)) = Inr (unat b div 16, unat b mod 16)"
proof -
  have "unat b < 256" using unsigned_less[of b] by simp
  then show ?thesis by (simp add: bcd_def and_15_nat drop_bit_eq_div)
qed

lemma length_nibbles: "length (nibbles bs) = 2 * length bs"
  by (induction bs) (simp_all add: nibbles_def)

lemma nibbles_Cons: "nibbles (b # bs) = unat b div 16 # unat b mod 16 # nibbles bs"
  by (simp add: nibbles_def)

lemma decode_bcd_loop_value:
  "decode_bcd_loop (map unat bs) (int (length bs) * 2 - 1) v =
     Inr (v + digits_value (nibbles bs))"
proof (induction bs arbitrary: v)
  case Nil
  show ?case by (simp add: nibbles_def)
next
  case (Cons b bs)
  let ?n = "int (length (b # bs)) * 2 - 1"
  have n: "?n - 2 = int (length bs) * 2 - 1" by simp
  have e1: "nat ?n = Suc (2 * length bs)" by simp
  have e2: "nat (?n - 1) = 2 * length bs" by simp
  have "decode_bcd_loop (map unat (b # bs)) ?n v =
        decode_bcd_loop (map unat bs) (?n - 2)
          (v + unat b div 16 * 10 ^ nat ?n + unat b mod 16 * 10 ^ nat (?n - 1))"
    by (simp only: list.map decode_bcd_loop.simps bcd_unat sum.case prod.case)
  also have "\<dots> = Inr (v + unat b div 16 * 10 ^ Suc (2 * length bs)
                        + unat b mod 16 * 10 ^ (2 * length bs) + digits_value (nibbles bs))"
    unfolding n e1 e2 by (rule Cons.IH)
  also have "\<dots> = Inr (v + digits_value (nibbles (b # bs)))"
    by (simp add: nibbles_Cons length_nibbles)
  finally show ?case .
qed

lemma dec_digits_shift: "dec_digits w (a * 10 ^ w + r) = dec_digits w r"
proof (induction w arbitrary: a)
  case 0 show ?case by simp
next
  case (Suc w)
  have s: "a * 10 ^ Suc w + r = (a * 10) * 10 ^ w + r" by simp
  have "(a * 10 ^ Suc w + r) div 10 ^ w = a * 10 + r div 10 ^ w"
    unfolding s by (rule div_mult_self3) simp
  moreover have "dec_digits w (a * 10 ^ Suc w + r) = dec_digits w r"
    unfolding s by (rule Suc.IH)
  ultimately show ?case by simp
qed

lemma digits_value_less: "\<forall>d\<in>set ds. d < 10 \<Longrightarrow> digits_value ds < 10 ^ length ds"
proof (induction ds)
  case Nil show ?case by simp
next
  case (Cons d ds)
  then have "d \<le> 9" "digits_value ds < 10 ^ length ds" by auto
  then have "d * 10 ^ length ds + digits_value ds < 9 * 10 ^ length ds + 10 ^ length ds"
    by (meson add_le_less_mono mult_le_mono1)
  then show ?case by simp
qed

lemma dec_digits_digits_value:
  "\<forall>d\<in>set ds. d < 10 \<Longrightarrow> dec_digits (length ds) (digits_value ds) = ds"
proof (induction ds)
  case Nil show ?case by simp
next
  case (Cons d ds)
  then have d: "d < 10" and r: "digits_value ds < 10 ^ length ds"
    by (auto intro: digits_value_less)
  have "(d * 10 ^ length ds + digits_value ds) div 10 ^ length ds = d"
    using r by simp
  then show ?case using Cons d by (simp add: dec_digits_shift)
qed

lemma decode_bcd_Inr: "decode_bcd bs = Inr (digits_value (nibbles bs))"
  using decode_bcd_loop_value[of bs 0] by (simp add: decode_bcd_def)

text \<open>
  Claim C6, as the code has it. \<open>decode_bcd\<close> has no check of the nibbles and never
  fails: it returns the sum of the nibbles weighted by descending powers of ten. When
  every nibble is at most 9, that number is the one whose \<open>2 * L\<close> decimal digits,
  leading zeros included, are the nibbles in order.
\<close>

theorem decode_bcd_value:
  "decode_bcd bs = Inr (digits_value (nibbles bs)) \<and>
   ((\<forall>d\<in>set (nibbles bs). d < 10) \<longrightarrow>
      dec_digits (2 * length bs) (digits_value (nibbles bs)) = nibbles bs)"
  using decode_bcd_Inr[of bs] dec_digits_digits_value[of "nibbles bs"]
  by (simp add: length_nibbles)

theorem decode_bcd_value_witness:
  "nibbles [0x80, 0x58] = [8, 0, 5, 8] \<and> decode_bcd [0x80, 0x58] = Inr 8058 \<and>
   dec_digits 4 8058 = [8, 0, 5, 8]"
  using decode_bcd_value[of "[0x80, 0x58]"] by (simp add: nibbles_def)

text \<open>
  Claim C6 as stated fails: the byte \<open>0xAB\<close> has the nibbles 10 and 11, and
  \<open>decode_bcd\<close> returns \<open>10 * 10 + 11\<close>.
\<close>

theorem decode_bcd_invalid_nibble_counterexample:
  "10 \<in> set (nibbles [0xAB]) \<and> decode_bcd [0xAB] = Inr 111"
  by (simp add: nibbles_def decode_bcd_def bcd_def and_15_nat drop_bit_eq_div)

subsection \<open>Lengths\<close>

lemma decode_bin_short: "length bs \<le> 4 \<Longrightarrow> decode_bin bs = Inr (be_nat (replicate (4 - length bs) 0 @ bs))"
  by (simp add: decode_bin_def unpack_I_def)

lemma be_nat_pad: "be_nat (replicate k 0 @ bs) = be_nat bs"
proof -
  have "foldl (\<lambda>acc x. acc * 256 + unat x) 0 (replicate k (0::byte)) = 0"
    by (induction k) simp_all
  then show ?thesis by (simp add: be_nat_def)
qed

lemma decode_bin_le4: "length bs \<le> 4 \<Longrightarrow> decode_bin bs = Inr (be_nat bs)"
  by (simp add: decode_bin_short be_nat_pad)

lemma be_nat_zeros: "be_nat (replicate k 0) = 0"
  using be_nat_pad [of k "[]"] by (simp add: be_nat_def)

text \<open>
  Claim C7, as the code has it. No decoder checks the length of its input. On the empty
  sequence \<open>decode_bin\<close>, \<open>decode_bcd\<close>, \<open>decode_fraction\<close> and \<open>decode_flt\<close> return
  zero, \<open>decode_bin_bool\<close> false and \<open>decode_asc\<close> no text; only \<open>decode_dbl\<close> fails.
  \<open>decode_bin\<close> returns the big-endian value of up to four bytes, and \<open>struct.error\<close>
  is raised by \<open>decode_bin\<close>, \<open>decode_bin_bool\<close> and \<open>decode_flt\<close> on more than four
  bytes and by \<open>decode_dbl\<close> on any number of bytes other than eight.
\<close>

theorem decoder_lengths:
  "decode_bin [] = Inr 0 \<and> decode_bin_bool [] = Inr False \<and> decode_bcd [] = Inr 0 \<and>
   decode_fraction [] = 0 \<and> decode_flt [] = Inr (Some 0) \<and> decode_asc [] = None \<and>
   decode_dbl [] = Inl StructError \<and>
   (length bs \<le> 4 \<longrightarrow> decode_bin bs = Inr (be_nat bs)) \<and>
   (4 < length bs \<longrightarrow> decode_bin bs = Inl StructError \<and> decode_bin_bool bs = Inl StructError \<and>
      decode_flt bs = Inl StructError) \<and>
   (length bs \<noteq> 8 \<longrightarrow> decode_dbl bs = Inl StructError)"
proof -
  have z: "decode_bin [] = Inr 0" by (simp add: decode_bin_def unpack_I_def be_nat_zeros)
  have "decode_bin_bool [] = Inr False" by (simp add: decode_bin_bool_def z bindE_def)
  moreover have "decode_bcd [] = Inr 0" by (simp add: decode_bcd_def)
  moreover have "decode_fraction [] = 0" by (simp add: decode_fraction_def)
  moreover have "decode_flt [] = Inr (Some 0)"
    by (simp add: decode_flt_def unpack_f_def be_nat_zeros bindE_def isnan_def f32_exponent_def)
  moreover have "decode_asc [] = None" by (simp add: decode_asc_def)
  moreover have "decode_dbl [] = Inl StructError" by (simp add: decode_dbl_def)
  moreover have "length bs \<le> 4 \<longrightarrow> decode_bin bs = Inr (be_nat bs)"
    by (simp add: decode_bin_le4)
  moreover have "4 < length bs \<longrightarrow> decode_bin bs = Inl StructError \<and>
      decode_bin_bool bs = Inl StructError \<and> decode_flt bs = Inl StructError"
    by (simp add: decode_bin_def decode_bin_bool_def decode_flt_def unpack_I_def unpack_f_def
        bindE_def)
  moreover have "length bs \<noteq> 8 \<longrightarrow> decode_dbl bs = Inl StructError"
    by (simp add: decode_dbl_def)
  ultimately show ?thesis using z by blast
qed

theorem decoder_lengths_witness:
  "4 < length [1, 2, 3, 4, 5 :: byte] \<and> length [1, 2, 3, 4, 5 :: byte] \<noteq> 8 \<and>
   length [7 :: byte] \<le> 4 \<and>
   decode_bin [1, 2, 3, 4, 5] = Inl StructError \<and> decode_dbl [1, 2, 3, 4, 5] = Inl StructError \<and>
   decode_bin [7] = Inr 7"
  using decoder_lengths [of "[1, 2, 3, 4, 5]"] decoder_lengths [of "[7]"]
  by (simp add: be_nat_def)

text \<open>Claim C7 as stated fails: \<open>decode_bin\<close> of the empty sequence returns 0.\<close>

theorem decode_bin_empty_counterexample: "decode_bin [] = Inr 0"
  by (simp add: decode_bin_def unpack_I_def be_nat_zeros)

subsection \<open>Binary64 rounding\<close>

lemma ilog2_bounds:
  assumes "0 < x"
  shows "2 powi (ilog2 x) \<le> x \<and> x < 2 powi (ilog2 x + 1)"
proof -
  obtain a b where q: "quotient_of x = (a, b)" by (cases "quotient_of x")
  have b: "0 < b" using q by (rule quotient_of_denom_pos)
  have x: "x = of_int a / of_int b" using q by (rule quotient_of_div)
  have a: "0 < a" using assms b x by (simp add: zero_less_divide_iff)
  define la where "la = floorlog 2 (nat a)"
  define lb where "lb = floorlog 2 (nat b)"
  define d where "d = int la - int lb"
  define P :: rat where "P = 2 powi d"
  have P: "0 < P" by (simp add: P_def)
  have "2 ^ (la - 1) \<le> nat a \<and> nat a < 2 ^ la"
    unfolding la_def using a by (intro floorlog_bounds) simp_all
  then have a1: "(2::rat) ^ la \<le> 2 * of_int a" and a2: "of_int a < (2::rat) ^ la"
  proof -
    assume h: "2 ^ (la - 1) \<le> nat a \<and> nat a < 2 ^ la"
    have la: "la \<noteq> 0" using a by (simp add: la_def floorlog_eq_zero_iff)
    then have "(2::nat) ^ la = 2 * 2 ^ (la - 1)" by (cases la) simp_all
    then have "(2::nat) ^ la \<le> 2 * nat a" using h by simp
    then have "int (2 ^ la) \<le> int (2 * nat a)" by (simp only: of_nat_le_iff)
    then have "(2::int) ^ la \<le> 2 * a" using a by simp
    then have "(of_int ((2::int) ^ la) :: rat) \<le> of_int (2 * a)" by (simp only: of_int_le_iff)
    then show "(2::rat) ^ la \<le> 2 * of_int a" by simp
    from h have "int (nat a) < int (2 ^ la)" by (simp only: of_nat_less_iff)
    then have "a < (2::int) ^ la" using a by simp
    then have "(of_int a :: rat) < of_int ((2::int) ^ la)" by (simp only: of_int_less_iff)
    then show "of_int a < (2::rat) ^ la" by simp
  qed
  have "2 ^ (lb - 1) \<le> nat b \<and> nat b < 2 ^ lb"
    unfolding lb_def using b by (intro floorlog_bounds) simp_all
  then have b1: "(2::rat) ^ lb \<le> 2 * of_int b" and b2: "of_int b < (2::rat) ^ lb"
  proof -
    assume h: "2 ^ (lb - 1) \<le> nat b \<and> nat b < 2 ^ lb"
    have lb: "lb \<noteq> 0" using b by (simp add: lb_def floorlog_eq_zero_iff)
    then have "(2::nat) ^ lb = 2 * 2 ^ (lb - 1)" by (cases lb) simp_all
    then have "(2::nat) ^ lb \<le> 2 * nat b" using h by simp
    then have "int (2 ^ lb) \<le> int (2 * nat b)" by (simp only: of_nat_le_iff)
    then have "(2::int) ^ lb \<le> 2 * b" using b by simp
    then have "(of_int ((2::int) ^ lb) :: rat) \<le> of_int (2 * b)" by (simp only: of_int_le_iff)
    then show "(2::rat) ^ lb \<le> 2 * of_int b" by simp
    from h have "int (nat b) < int (2 ^ lb)" by (simp only: of_nat_less_iff)
    then have "b < (2::int) ^ lb" using b by simp
    then have "(of_int b :: rat) < of_int ((2::int) ^ lb)" by (simp only: of_int_less_iff)
    then show "of_int b < (2::rat) ^ lb" by simp
  qed
  have pw: "(2::rat) ^ la = P * 2 ^ lb"
  proof -
    have "(2::rat) powi (d + int lb) = 2 powi d * 2 powi (int lb)"
      by (rule power_int_add) simp
    then show ?thesis by (simp add: d_def P_def)
  qed
  have bpos: "(0::rat) < of_int b" using b by simp
  have up: "x < 2 * P"
  proof -
    have "of_int a < P * 2 ^ lb" using a2 pw by simp
    also have "\<dots> \<le> P * (2 * of_int b)" using b1 P by (intro mult_left_mono) simp_all
    finally have "of_int a < (2 * P) * of_int b" by (simp add: mult_ac)
    then show ?thesis using bpos by (simp add: x pos_divide_less_eq)
  qed
  have lo: "P < 2 * x"
  proof -
    have "P * of_int b < P * 2 ^ lb" using b2 P by (intro mult_strict_left_mono)
    also have "\<dots> \<le> 2 * of_int a" using a1 pw by simp
    finally have "P * of_int b < 2 * of_int a" .
    then have "P < (2 * of_int a) / of_int b" using bpos by (simp add: pos_less_divide_eq)
    then show ?thesis by (simp add: x)
  qed
  have p1: "(2::rat) powi (d + 1) = 2 * P"
    using power_int_add[of "2::rat" d 1] by (simp add: P_def)
  have p2: "2 * (2::rat) powi (d - 1) = P"
    using power_int_add[of "2::rat" "d - 1" 1] by (simp add: P_def)
  have i: "ilog2 x = (if P \<le> x then d else d - 1)"
    by (simp add: ilog2_def q la_def lb_def d_def P_def Let_def)
  show ?thesis
  proof (cases "P \<le> x")
    case True
    then show ?thesis using up by (simp add: i p1 P_def[symmetric])
  next
    case False
    then have "ilog2 x = d - 1" by (simp add: i)
    moreover have "2 powi (d - 1) \<le> x" using lo p2 by simp
    moreover have "x < 2 powi (d - 1 + 1)" using False by (simp add: P_def)
    ultimately show ?thesis by simp
  qed
qed

lemma ilog2_unique:
  assumes "2 powi e \<le> x" and "x < 2 powi (e + 1)"
  shows "ilog2 x = e"
proof -
  have "(0::rat) < 2 powi e" by simp
  from this assms(1) have x: "0 < x" by (rule less_le_trans)
  from ilog2_bounds[OF x] have l: "2 powi (ilog2 x) \<le> x" and u: "x < 2 powi (ilog2 x + 1)"
    by simp_all
  have "\<not> ilog2 x < e"
  proof
    assume "ilog2 x < e"
    then have "ilog2 x + 1 \<le> e" by simp
    then have "(2::rat) powi (ilog2 x + 1) \<le> 2 powi e" by (intro power_int_increasing) simp_all
    then show False using u assms(1) by simp
  qed
  moreover have "\<not> e < ilog2 x"
  proof
    assume "e < ilog2 x"
    then have "e + 1 \<le> ilog2 x" by simp
    then have "(2::rat) powi (e + 1) \<le> 2 powi (ilog2 x)" by (intro power_int_increasing) simp_all
    then show False using l assms(2) by simp
  qed
  ultimately show ?thesis by simp
qed

lemma round_half_even_of_int: "round_half_even (of_int n) = n"
  by (simp add: round_half_even_def)

lemma fl64_eval:
  assumes "2 powi e \<le> x" and "x < 2 powi (e + 1)"
  shows "fl64 x = of_int (round_half_even (x / 2 powi (max e (- 1022) - 52))) *
                  2 powi (max e (- 1022) - 52)"
proof -
  have "(0::rat) < 2 powi e" by simp
  from this assms(1) have "0 < x" by (rule less_le_trans)
  then show ?thesis using ilog2_unique[OF assms] by (simp add: fl64_def Let_def)
qed

lemma fl64_exact:
  assumes "k < 2 ^ 53" and "- 1074 \<le> z"
  shows "fl64 (of_nat k * 2 powi z) = of_nat k * 2 powi z"
proof (cases "k = 0")
  case True
  then show ?thesis by (simp add: fl64_def)
next
  case False
  define x :: rat where "x = of_nat k * 2 powi z"
  have x: "0 < x" using False by (simp add: x_def)
  define e where "e = max (ilog2 x) (- 1022)"
  have l: "2 powi (ilog2 x) \<le> x" using ilog2_bounds[OF x] by simp
  have "(of_nat k :: rat) < 2 ^ 53" using assms(1) by (metis of_nat_less_iff of_nat_numeral of_nat_power)
  then have "x < 2 ^ 53 * 2 powi z" by (simp add: x_def)
  also have "\<dots> = 2 powi (53 + z)" using power_int_add[of "2::rat" 53 z] by simp
  finally have "(2::rat) powi (ilog2 x) < 2 powi (53 + z)" using l by simp
  then have "ilog2 x < 53 + z"
    by (metis linorder_not_less one_le_numeral power_int_increasing)
  then have ez: "0 \<le> z - e + 52" using assms(2) by (simp add: e_def)
  define n where "n = nat (z - e + 52)"
  have zn: "z = int n + (e - 52)" using ez by (simp add: n_def)
  have pz: "(2::rat) powi z = 2 ^ n * 2 powi (e - 52)"
    unfolding zn using power_int_add[of "2::rat" "int n" "e - 52"] by simp
  have "x / 2 powi (e - 52) = of_int (int k * 2 ^ n)"
    by (simp add: x_def pz)
  then have "round_half_even (x / 2 powi (e - 52)) = int k * 2 ^ n"
    by (simp only: round_half_even_of_int)
  then have "fl64 x = of_int (int k * 2 ^ n) * 2 powi (e - 52)"
    using x by (simp add: fl64_def Let_def e_def)
  also have "\<dots> = x" by (simp add: x_def pz)
  finally show ?thesis by (simp add: x_def)
qed

lemma fl64_zero: "fl64 0 = 0"
  by (simp add: fl64_def)

lemma fl64_exact_frac:
  assumes "k < 2 ^ 53" and "m \<le> 1074"
  shows "fl64 (of_nat k / 2 ^ m) = of_nat k / 2 ^ m"
proof -
  have "(of_nat k :: rat) / 2 ^ m = of_nat k * 2 powi (- int m)"
    by (simp add: power_int_minus divide_inverse)
  moreover have "fl64 (of_nat k * 2 powi (- int m)) = of_nat k * 2 powi (- int m)"
    using assms by (intro fl64_exact) simp_all
  ultimately show ?thesis by simp
qed

subsection \<open>Binary fractions\<close>

lemma fraction_sum_append:
  "fraction_sum (xs @ ys) n acc = fraction_sum ys (n + length xs) (fraction_sum xs n acc)"
  by (induction xs arbitrary: n acc) simp_all

lemma fraction_step_exact:
  assumes "x \<le> 1" and "k < 2 ^ m" and "m < 53"
  shows "fl64 (of_nat k / 2 ^ m + fl64 (of_nat x * fl64 (1 / 2 ^ Suc m))) =
         of_nat (2 * k + x) / 2 ^ Suc m"
proof -
  have one: "fl64 (1 / 2 ^ Suc m) = 1 / 2 ^ Suc m"
    using fl64_exact_frac[of 1 "Suc m"] assms(3) by simp
  have "x < 2 ^ 53" using assms(1) by (simp add: le_less_trans[of x 1])
  then have t: "fl64 (of_nat x / 2 ^ Suc m) = of_nat x / 2 ^ Suc m"
    using assms(3) by (intro fl64_exact_frac) simp_all
  have "2 * k + x < 2 ^ Suc m" using assms(1,2) by simp
  also have "(2::nat) ^ Suc m \<le> 2 ^ 53" using assms(3) by (intro power_increasing) simp_all
  finally have s: "fl64 (of_nat (2 * k + x) / 2 ^ Suc m) = of_nat (2 * k + x) / 2 ^ Suc m"
    using assms(3) by (intro fl64_exact_frac) simp_all
  have m: "(of_nat x :: rat) * (1 / 2 ^ Suc m) = of_nat x / 2 ^ Suc m"
    by (simp only: times_divide_eq_right mult_1_right)
  have e: "(of_nat k :: rat) / 2 ^ m + of_nat x / 2 ^ Suc m = of_nat (2 * k + x) / 2 ^ Suc m"
    by (simp add: field_simps)
  show ?thesis by (simp only: one m t e s)
qed

lemma fraction_sum_exact:
  assumes "\<forall>x\<in>set bits. x \<le> 1" and "k < 2 ^ m" and "m + length bits \<le> 53"
  shows "fraction_sum bits (Suc m) (of_nat k / 2 ^ m) =
         of_nat (k * 2 ^ length bits + bits_value bits) / 2 ^ (m + length bits)"
  using assms
proof (induction bits arbitrary: k m)
  case Nil
  show ?case by simp
next
  case (Cons x bits)
  have x: "x \<le> 1" and m: "m < 53" using Cons.prems by simp_all
  have step: "fl64 (of_nat k / 2 ^ m + fl64 (of_nat x * fl64 (1 / 2 ^ Suc m))) =
         of_nat (2 * k + x) / 2 ^ Suc m"
    using x Cons.prems(2) m by (rule fraction_step_exact)
  have k': "2 * k + x < 2 ^ Suc m" using x Cons.prems(2) by simp
  have ih: "fraction_sum bits (Suc (Suc m)) (of_nat (2 * k + x) / 2 ^ Suc m) =
         of_nat ((2 * k + x) * 2 ^ length bits + bits_value bits) / 2 ^ (Suc m + length bits)"
    using Cons.prems k' by (intro Cons.IH) simp_all
  have "fraction_sum (x # bits) (Suc m) (of_nat k / 2 ^ m) =
        fraction_sum bits (Suc (Suc m))
          (fl64 (of_nat k / 2 ^ m + fl64 (of_nat x * fl64 (1 / 2 ^ Suc m))))"
    by simp
  also have "\<dots> = of_nat ((2 * k + x) * 2 ^ length bits + bits_value bits) /
                    2 ^ (Suc m + length bits)"
    by (simp only: step ih)
  also have "(2 * k + x) * 2 ^ length bits + bits_value bits =
             k * 2 ^ length (x # bits) + bits_value (x # bits)"
    by (simp add: algebra_simps)
  also have "Suc m + length bits = m + length (x # bits)" by simp
  finally show ?case .
qed

lemma bits_value_append:
  "bits_value (xs @ ys) = bits_value xs * 2 ^ length ys + bits_value ys"
  by (induction xs) (simp_all add: power_add algebra_simps)

lemma foldl_be_nat:
  "foldl (\<lambda>acc x. acc * 256 + unat x) a bs =
     a * 256 ^ length bs + foldl (\<lambda>acc x. acc * 256 + unat x) 0 (bs :: byte list)"
proof (induction bs arbitrary: a)
  case Nil
  show ?case by simp
next
  case (Cons x xs)
  let ?f = "\<lambda>acc (x :: byte). acc * 256 + unat x"
  have "foldl ?f a (x # xs) = foldl ?f (a * 256 + unat x) xs" by simp
  also have "\<dots> = (a * 256 + unat x) * 256 ^ length xs + foldl ?f 0 xs" by (rule Cons.IH)
  finally have 1: "foldl ?f a (x # xs) = (a * 256 + unat x) * 256 ^ length xs + foldl ?f 0 xs" .
  have "foldl ?f 0 (x # xs) = foldl ?f (unat x) xs" by simp
  also have "\<dots> = unat x * 256 ^ length xs + foldl ?f 0 xs" by (rule Cons.IH)
  finally have 2: "foldl ?f 0 (x # xs) = unat x * 256 ^ length xs + foldl ?f 0 xs" .
  have "(a * 256 + unat x) * 256 ^ length xs = a * 256 ^ length (x # xs) + unat x * 256 ^ length xs"
    by (simp add: add_mult_distrib)
  then show ?case unfolding 1 2 by simp
qed

lemma be_nat_Cons: "be_nat (b # bs) = unat b * 256 ^ length bs + be_nat bs"
  using foldl_be_nat[of "unat b" bs] by (simp add: be_nat_def)

lemma bits_value_8:
  "bits_value [x7, x6, x5, x4, x3, x2, x1, x0] =
     x0 + 2 * (x1 + 2 * (x2 + 2 * (x3 + 2 * (x4 + 2 * (x5 + 2 * (x6 + 2 * (x7 + 2 * 0)))))))"
  by simp

lemma bit_unat_byte: "i < 8 \<Longrightarrow> bit (unat b) i = bit (b::byte) i"
  by (simp add: bit_unsigned_iff)

lemma bits_value_bits8: "bits_value (bits8 b) = unat b"
proof -
  have u: "[0..<8] = [0, 1, 2, 3, 4, 5, 6, 7 :: nat]" by code_simp
  have "unat b < 2 ^ 8" using unsigned_less[of b] by simp
  then have "take_bit 8 (unat b) = unat b" by (simp only: take_bit_nat_eq_self)
  then have h: "horner_sum of_bool 2 (map (bit (unat b)) [0, 1, 2, 3, 4, 5, 6, 7]) = unat b"
    using horner_sum_bit_eq_take_bit[of "unat b" 8] by (simp only: u)
  have c: "bit (unat b) 0 = bit b 0" "bit (unat b) 1 = bit b 1" "bit (unat b) 2 = bit b 2"
      "bit (unat b) 3 = bit b 3" "bit (unat b) 4 = bit b 4" "bit (unat b) 5 = bit b 5"
      "bit (unat b) 6 = bit b 6" "bit (unat b) 7 = bit b 7"
    by (rule bit_unat_byte, simp)+
  have b8: "bits8 b = map (\<lambda>i. of_bool (bit b i)) [7, 6, 5, 4, 3, 2, 1, 0]"
    by (simp only: bits8_def of_bool_def)
  have "bits_value (bits8 b) =
        horner_sum of_bool 2 (map (bit (unat b)) [0, 1, 2, 3, 4, 5, 6, 7])"
    by (simp only: b8 list.map bits_value_8 horner_sum_simps c)
  then show ?thesis by (simp only: h)
qed

lemma length_bits8: "length (bits8 b) = 8"
  by (simp add: bits8_def)

lemma bits_value_concat_bits8: "bits_value (concat (map bits8 bs)) = be_nat bs"
proof (induction bs)
  case Nil
  show ?case by (simp add: be_nat_def)
next
  case (Cons b bs)
  have "length (concat (map bits8 bs)) = 8 * length bs"
    by (induction bs) (simp_all add: length_bits8)
  moreover have "(2::nat) ^ (8 * length bs) = 256 ^ length bs"
    by (simp add: power_mult)
  ultimately show ?case
    using Cons by (simp add: bits_value_append bits_value_bits8 be_nat_Cons)
qed

lemma length_concat_bits8: "length (concat (map bits8 bs)) = 8 * length bs"
  by (induction bs) (simp_all add: length_bits8)

lemma set_concat_bits8: "\<forall>x\<in>set (concat (map bits8 bs)). x \<le> 1"
  by (auto simp: bits8_def)

lemma be_nat_less: "be_nat bs < 2 ^ (8 * length bs)"
proof (induction bs)
  case Nil
  show ?case by (simp add: be_nat_def)
next
  case (Cons b bs)
  have "unat b < 256" using unsigned_less[of b] by simp
  then have "unat b \<le> 255" by simp
  then have "unat b * 256 ^ length bs + be_nat bs < 255 * 256 ^ length bs + 256 ^ length bs"
    using Cons by (intro add_le_less_mono mult_le_mono1) (simp_all add: power_mult)
  moreover have "(2::nat) ^ (8 * length (b # bs)) = 256 * 256 ^ length bs"
    by (simp add: power_add power_mult)
  ultimately show ?case by (simp add: be_nat_Cons)
qed

lemma decode_fraction_exact:
  assumes "length bs \<le> 6"
  shows "decode_fraction bs = of_nat (be_nat bs) / 2 ^ (8 * length bs)"
proof -
  have "fraction_sum (concat (map bits8 bs)) (Suc 0) (of_nat 0 / 2 ^ 0) =
        of_nat (0 * 2 ^ length (concat (map bits8 bs)) + bits_value (concat (map bits8 bs))) /
        2 ^ (0 + length (concat (map bits8 bs)))"
    using assms by (intro fraction_sum_exact set_concat_bits8) (simp_all add: length_concat_bits8)
  then show ?thesis
    by (simp add: decode_fraction_def bits_value_concat_bits8 length_concat_bits8)
qed

lemma fl64_tie: "fl64 (18014398509481983 / 18014398509481984) = 1"
proof -
  have "fl64 (18014398509481983 / 18014398509481984) =
        of_int (round_half_even ((18014398509481983 / 18014398509481984) /
                  2 powi (max (- 1) (- 1022) - 52))) * 2 powi (max (- 1) (- 1022) - 52)"
    by (rule fl64_eval) (simp_all add: power_int_minus)
  moreover have "(18014398509481983 / 18014398509481984 :: rat) / 2 powi (max (- 1) (- 1022) - 52) =
        18014398509481983 / 2"
    by (simp add: power_int_minus)
  moreover have "round_half_even (18014398509481983 / 2) = 9007199254740992"
  proof -
    have "\<lfloor>18014398509481983 / 2 :: rat\<rfloor> = 9007199254740991"
      by (rule floor_unique) simp_all
    then show ?thesis by (simp add: round_half_even_def Let_def)
  qed
  ultimately show ?thesis by (simp add: power_int_minus)
qed

lemma fl64_above_one:
  assumes "0 < d" and "d < 1 / 2 ^ 53"
  shows "fl64 (1 + d) = 1"
proof -
  have d1: "d < 1" using assms(2) by (rule less_trans) simp
  have "fl64 (1 + d) =
        of_int (round_half_even ((1 + d) / 2 powi (max 0 (- 1022) - 52))) *
          2 powi (max 0 (- 1022) - 52)"
    using assms(1) d1 by (intro fl64_eval) simp_all
  moreover have "(1 + d) / 2 powi (max 0 (- 1022) - 52) = 4503599627370496 + d * 4503599627370496"
    by (simp add: power_int_minus field_simps)
  moreover have "round_half_even (4503599627370496 + d * 4503599627370496) = 4503599627370496"
  proof -
    have a: "0 < d * 4503599627370496" using assms(1) by simp
    have b: "d * 4503599627370496 < 1 / 2" using assms(2) by (simp add: field_simps)
    have "\<lfloor>4503599627370496 + d * 4503599627370496\<rfloor> = 4503599627370496"
      using a b by (intro floor_unique) simp_all
    then show ?thesis using b by (simp add: round_half_even_def Let_def)
  qed
  ultimately show ?thesis by (simp add: power_int_minus)
qed

lemma bits_value_ones: "bits_value (replicate n 1) + 1 = 2 ^ n"
  by (induction n) simp_all

lemma fraction_step_one:
  assumes "m \<le> 1074"
  shows "fl64 (acc + fl64 (of_nat 1 * fl64 (1 / 2 ^ m))) = fl64 (acc + 1 / 2 ^ m)"
proof -
  have "fl64 (of_nat 1 / 2 ^ m) = of_nat 1 / 2 ^ m"
    using assms by (intro fl64_exact_frac) simp_all
  then show ?thesis by simp
qed

lemma fraction_sum_zeros: "\<forall>x\<in>set bits. x = 0 \<Longrightarrow> fraction_sum bits n 0 = 0"
  by (induction bits arbitrary: n) (simp_all add: fl64_zero)

lemma bits8_zero: "bits8 0 = replicate 8 0"
  by (simp add: bits8_def numeral_eq_Suc)

lemma decode_fraction_zero:
  assumes "all_zero bs"
  shows "decode_fraction bs = 0"
proof -
  have "\<forall>b\<in>set bs. bits8 b = replicate 8 0"
    using assms by (auto simp: all_zero_def list_all_iff bits8_zero)
  then have "\<forall>x\<in>set (concat (map bits8 bs)). x = 0" by auto
  then show ?thesis unfolding decode_fraction_def by (rule fraction_sum_zeros)
qed

text \<open>
  Claim C9, as the code has it. The sum is a sum of binary64 floats. For a byte sequence
  of at most six bytes every partial sum is exact: the result is the big-endian value
  of the bytes divided by \<open>2^(8 L)\<close>, it lies in \<open>[0, 1)\<close> and it is monotonic, strictly so,
  in the big-endian value of sequences of the same length. The all-zero sequence of any
  length decodes to 0.
\<close>

theorem decode_fraction_range:
  "(length bs \<le> 6 \<longrightarrow>
      decode_fraction bs = of_nat (be_nat bs) / 2 ^ (8 * length bs) \<and>
      0 \<le> decode_fraction bs \<and> decode_fraction bs < 1) \<and>
   (length bs \<le> 6 \<and> length cs = length bs \<and> be_nat bs \<le> be_nat cs \<longrightarrow>
      decode_fraction bs \<le> decode_fraction cs) \<and>
   (length bs \<le> 6 \<and> length cs = length bs \<and> be_nat bs < be_nat cs \<longrightarrow>
      decode_fraction bs < decode_fraction cs) \<and>
   (all_zero bs \<longrightarrow> decode_fraction bs = 0)"
proof -
  have r: "decode_fraction bs < 1" if "length bs \<le> 6"
  proof -
    have "(of_nat (be_nat bs) :: rat) < of_nat (2 ^ (8 * length bs))"
      using be_nat_less[of bs] by (simp only: of_nat_less_iff)
    then show ?thesis using that by (simp add: decode_fraction_exact)
  qed
  have m: "decode_fraction bs \<le> decode_fraction cs"
    if "length bs \<le> 6" "length cs = length bs" "be_nat bs \<le> be_nat cs"
  proof -
    have "(of_nat (be_nat bs) :: rat) \<le> of_nat (be_nat cs)"
      using that(3) by (simp only: of_nat_le_iff)
    then show ?thesis using that(1,2) by (simp add: decode_fraction_exact divide_right_mono)
  qed
  have s: "decode_fraction bs < decode_fraction cs"
    if "length bs \<le> 6" "length cs = length bs" "be_nat bs < be_nat cs"
  proof -
    have "(of_nat (be_nat bs) :: rat) < of_nat (be_nat cs)"
      using that(3) by (simp only: of_nat_less_iff)
    then show ?thesis using that(1,2) by (simp add: decode_fraction_exact divide_strict_right_mono)
  qed
  show ?thesis using r m s by (simp add: decode_fraction_exact decode_fraction_zero)
qed

theorem decode_fraction_range_witness:
  "decode_fraction [0x80, 0x00] = 1 / 2 \<and> decode_fraction [0xC0, 0x00] = 3 / 4 \<and>
   decode_fraction [0x80, 0x00] < decode_fraction [0xC0, 0x00] \<and>
   decode_fraction [0x00, 0x00] = 0"
proof -
  have a: "be_nat [0x80, 0x00] = 32768" and b: "be_nat [0xC0, 0x00] = 49152"
    by (simp_all add: be_nat_def)
  have z: "all_zero [0x00, 0x00]" by (simp add: all_zero_def)
  from decode_fraction_range [of "[0x80, 0x00]" "[0xC0, 0x00]"]
    decode_fraction_range [of "[0xC0, 0x00]" "[0xC0, 0x00]"]
    decode_fraction_range [of "[0x00, 0x00]" "[0x00, 0x00]"]
  show ?thesis by (simp add: a b z)
qed

text \<open>
  Claim C9 as stated fails for longer sequences: the sum of seven bytes \<open>0xFF\<close> is
  \<open>1 - 2^-56\<close>, which no binary64 value below 1 represents; the 54th addition already
  rounds to 1.0, and the result is 1.
\<close>

theorem decode_fraction_seven_ones_counterexample:
  "decode_fraction (replicate 7 0xFF) = 1"
proof -
  have b: "bits8 0xFF = replicate 8 1" by (simp add: bits8_def numeral_eq_Suc)
  have "concat (map bits8 (replicate 7 0xFF)) = replicate 56 1"
    unfolding map_replicate b by (simp add: numeral_eq_Suc)
  also have "\<dots> = replicate 53 1 @ [1, 1, 1]"
    by (simp add: numeral_eq_Suc replicate_append_same)
  finally have bits: "concat (map bits8 (replicate 7 0xFF)) = replicate 53 1 @ [1, 1, 1]" .
  have "fraction_sum (replicate 53 1) (Suc 0) (of_nat 0 / 2 ^ 0) =
        of_nat (0 * 2 ^ length (replicate 53 (1::nat)) + bits_value (replicate 53 1)) /
        2 ^ (0 + length (replicate 53 (1::nat)))"
    by (rule fraction_sum_exact) simp_all
  moreover have "bits_value (replicate 53 1) = 9007199254740991"
    using bits_value_ones[of 53] by simp
  ultimately have a53: "fraction_sum (replicate 53 1) 1 0 = 9007199254740991 / 9007199254740992"
    by simp
  have s54: "fl64 (9007199254740991 / 9007199254740992 + fl64 (of_nat 1 * fl64 (1 / 2 ^ 54))) = 1"
  proof -
    have e: "(9007199254740991 / 9007199254740992 + 1 / 2 ^ 54 :: rat) =
          18014398509481983 / 18014398509481984" by simp
    have "fl64 (9007199254740991 / 9007199254740992 + fl64 (of_nat 1 * fl64 (1 / 2 ^ 54))) =
          fl64 (9007199254740991 / 9007199254740992 + 1 / 2 ^ 54)"
      by (rule fraction_step_one) simp
    also have "\<dots> = fl64 (18014398509481983 / 18014398509481984)" by (simp only: e)
    also have "\<dots> = 1" by (rule fl64_tie)
    finally show ?thesis .
  qed
  have n55: "(54::nat) + 1 = 55" and n56: "(54::nat) + 1 + 1 = 56" by simp_all
  have s55: "fl64 (1 + fl64 (of_nat 1 * fl64 (1 / 2 ^ (54 + 1)))) = 1"
    unfolding n55 using fraction_step_one[of 55 1] fl64_above_one[of "1 / 2 ^ 55"] by simp
  have s56: "fl64 (1 + fl64 (of_nat 1 * fl64 (1 / 2 ^ (54 + 1 + 1)))) = 1"
    unfolding n56 using fraction_step_one[of 56 1] fl64_above_one[of "1 / 2 ^ 56"] by simp
  have "fraction_sum [1, 1, 1] 54 (9007199254740991 / 9007199254740992) = 1"
    by (simp only: fraction_sum.simps s54 s55 s56)
  then show ?thesis
    unfolding decode_fraction_def bits fraction_sum_append a53 by simp
qed

section \<open>Properties of the block readers\<close>

subsection \<open>Slices and the monads\<close>

lemma length_slice: "length (bslice a b buf) = min (b - a) (length buf - a)"
  by (simp add: bslice_def)

lemma bindE_Inr: "bindE (Inr x) f = f x"
  by (simp add: bindE_def)

lemma decode_bin_slice:
  "b - a \<le> 4 \<Longrightarrow> decode_bin (bslice a b buf) = Inr (be_nat (bslice a b buf))"
  by (rule decode_bin_le4) (simp add: length_slice)

lemma decode_bin_rev_slice:
  "b - a \<le> 4 \<Longrightarrow> decode_bin (rev (bslice a b buf)) = Inr (be_nat (rev (bslice a b buf)))"
  by (rule decode_bin_le4) (simp add: length_slice)

lemma decode_bin_bool_slice:
  "b - a \<le> 4 \<Longrightarrow> decode_bin_bool (bslice a b buf) = Inr (0 < be_nat (bslice a b buf))"
  by (simp add: decode_bin_bool_def decode_bin_slice bindE_Inr)

lemma decode_dbl_slice:
  "b - a = 8 \<Longrightarrow> b \<le> length buf \<Longrightarrow>
     decode_dbl (bslice a b buf) = Inr (of_nat (be_nat (bslice a b buf)))"
  by (simp add: decode_dbl_def length_slice)

lemma stream_read_full:
  "pos p + n \<le> length (byte_stream p) \<Longrightarrow>
     stream_read n p = (take n (drop (pos p) (byte_stream p)), p\<lparr>pos := pos p + n\<rparr>)"
  by (simp add: stream_read_def Let_def)

subsection \<open>The trace header\<close>

lemma digits_value_nibbles_less:
  "\<forall>d\<in>set ds. d < 16 \<Longrightarrow> digits_value ds < 2 * 10 ^ length ds"
proof (induction ds)
  case Nil show ?case by simp
next
  case (Cons d ds)
  then have "d \<le> 15" "digits_value ds < 2 * 10 ^ length ds" by auto
  then have "d * 10 ^ length ds + digits_value ds < 15 * 10 ^ length ds + 2 * 10 ^ length ds"
    by (meson add_le_less_mono mult_le_mono1)
  then show ?case by simp
qed

lemma nibbles_less: "\<forall>d\<in>set (nibbles bs). d < 16"
proof -
  have "unat b div 16 < 16" for b :: byte
  proof -
    have "unat b < 256" using unsigned_less[of b] by simp
    then show ?thesis by simp
  qed
  then show ?thesis by (auto simp: nibbles_def)
qed

lemma decode_bcd_2_bytes_less:
  assumes "length bs \<le> 2"
  shows "digits_value (nibbles bs) < 20000"
proof -
  have "digits_value (nibbles bs) < 2 * 10 ^ (2 * length bs)"
    using digits_value_nibbles_less[OF nibbles_less, of bs] by (simp add: length_nibbles)
  also have "\<dots> \<le> 2 * 10 ^ 4"
    using assms by (intro mult_left_mono power_increasing) simp_all
  finally show ?thesis by simp
qed

lemma parse_traceh_Inr:
  "\<exists>t. parse_traceh buf = Inr t \<and>
       th_file_number t = Some (digits_value (nibbles (bslice 0 2 buf))) \<and>
       th_channel_set_number t = digits_value (nibbles (bslice 3 4 buf)) \<and>
       th_trace_header_extension t = be_nat (bslice 9 10 buf)"
proof -
  have "digits_value (nibbles (bslice 0 2 buf)) \<noteq> 65535"
    using decode_bcd_2_bytes_less[of "bslice 0 2 buf"] by (simp add: length_slice)
  then show ?thesis
    by (simp add: parse_traceh_def decode_bcd_Inr decode_bin_slice bindE_Inr)
qed

text \<open>
  Claim C8 on the code. \<open>_read_traceh\<close> decodes the file number with \<open>decode_bcd\<close>
  and compares the result with \<open>0xFFFF\<close>; two bytes decode to less than 20000, so the
  comparison never holds. On a trace header whose first two bytes are \<open>0xFF 0xFF\<close> the
  field is the number 16665, not absent.
\<close>

theorem traceh_file_number_sentinel_kept:
  "bindE (parse_traceh (0xFF # 0xFF # replicate 18 0)) (\<lambda>t. Inr (th_file_number t)) =
     Inr (Some 16665)"
proof -
  obtain t where t: "parse_traceh (0xFF # 0xFF # replicate 18 0) = Inr t"
    "th_file_number t = Some (digits_value (nibbles (bslice 0 2 (0xFF # 0xFF # replicate 18 0))))"
    using parse_traceh_Inr by blast
  have "bslice 0 2 (0xFF # 0xFF # replicate 18 0) = [0xFF, 0xFF :: byte]"
    by (simp add: bslice_def)
  then show ?thesis using t by (simp add: bindE_Inr nibbles_def)
qed


subsection \<open>The format check\<close>

lemma read_general_hdr1_bad_format:
  assumes "decode_bcd (bslice 2 4 (take 32 (drop (pos p) (byte_stream p)))) \<noteq> Inr 8058"
  shows "read_general_hdr1 utc p =
     (Inl SEGDNotImplemented,
      p\<lparr>pos := pos p + length (take 32 (drop (pos p) (byte_stream p))),
        header_block := header_block p @ take 32 (drop (pos p) (byte_stream p))\<rparr>)"
  using assms
  by (simp add: read_general_hdr1_def read_header_bytes_def stream_read_def Let_def
      parse_general_hdr1_def decode_bcd_Inr bindE_Inr)

lemma read_segd_bad_format:
  assumes "decode_bcd (bslice 2 4 (take 32 file)) \<noteq> Inr 8058"
  shows "read_segd utc file p0 =
     (Inl SEGDNotImplemented,
      p0\<lparr>byte_stream := file, pos := min 32 (length file), stream_closed := False,
         header_block := header_block p0 @ take 32 file\<rparr>)"
proof -
  let ?p = "p0\<lparr>byte_stream := file, pos := 0, stream_closed := False\<rparr>"
  have "read_general_hdr1 utc ?p =
     (Inl SEGDNotImplemented,
      ?p\<lparr>pos := pos ?p + length (take 32 (drop (pos ?p) (byte_stream ?p))),
        header_block := header_block ?p @ take 32 (drop (pos ?p) (byte_stream ?p))\<rparr>)"
    by (rule read_general_hdr1_bad_format) (use assms in simp)
  then have "read_blocks utc ?p =
     (Inl SEGDNotImplemented,
      p0\<lparr>byte_stream := file, pos := min 32 (length file), stream_closed := False,
         header_block := header_block p0 @ take 32 file\<rparr>)"
    by (simp add: read_blocks_def read_headers_def bindS_def min.commute)
  then show ?thesis by (simp add: read_segd_def)
qed

text \<open>
  Claim C1. When the format code decoded from bytes 2 and 3 of the file is not 8058,
  \<open>read_segd\<close> fails with \<open>SEGDNotImplemented\<close>; the stream has then been read up to
  byte 32 at most, which is before the second general header, and only those bytes are
  in the header block.
\<close>

theorem unsupported_format:
  assumes "decode_bcd (bslice 2 4 (take 32 file)) \<noteq> Inr 8058"
  shows "read_segd utc file p0 =
     (Inl SEGDNotImplemented,
      p0\<lparr>byte_stream := file, pos := min 32 (length file), stream_closed := False,
         header_block := header_block p0 @ take 32 file\<rparr>)"
  using assms by (rule read_segd_bad_format)

theorem unsupported_format_witness:
  "read_segd (\<lambda>_ _ _ _ _. None) ([0x00, 0x01, 0x80, 0x15] @ replicate 96 0) new_parser =
     (Inl SEGDNotImplemented,
      \<lparr>byte_stream = [0x00, 0x01, 0x80, 0x15] @ replicate 96 0, pos = 32,
       stream_closed = False, header_block = [0x00, 0x01, 0x80, 0x15] @ replicate 28 0,
       traceh_list = []\<rparr>)"
proof -
  have "decode_bcd (bslice 2 4 (take 32 ([0x00, 0x01, 0x80, 0x15] @ replicate 96 0))) \<noteq> Inr 8058"
    by (simp add: bslice_def decode_bcd_Inr nibbles_def)
  from unsupported_format [OF this, of "\<lambda>_ _ _ _ _. None" new_parser]
  show ?thesis by (simp add: new_parser_def)
qed

subsection \<open>The size of the external header\<close>

lemma mapE_decode_bcd:
  "mapE (\<lambda>b. decode_bcd [b]) bs = Inr (map (\<lambda>b. digits_value (nibbles [b])) bs)"
  by (induction bs) (simp_all add: decode_bcd_Inr bindE_Inr)

lemma decode_bcd_1_byte_less:
  assumes "length bs \<le> 1"
  shows "digits_value (nibbles bs) < 200"
proof -
  have "digits_value (nibbles bs) < 2 * 10 ^ (2 * length bs)"
    using digits_value_nibbles_less[OF nibbles_less, of bs] by (simp add: length_nibbles)
  also have "\<dots> \<le> 2 * 10 ^ 2"
    using assms by (intro mult_left_mono power_increasing) simp_all
  finally show ?thesis by simp
qed

lemma parse_general_hdr1_external_header_length:
  assumes "parse_general_hdr1 utc buf = Inr gh1"
  shows "gh1_external_header_length gh1 = Some (digits_value (nibbles (bslice 31 32 buf)))"
proof -
  have "digits_value (nibbles (bslice 31 32 buf)) \<noteq> 255"
    using decode_bcd_1_byte_less[of "bslice 31 32 buf"] by (simp add: length_slice)
  with assms show ?thesis
    by (auto simp: parse_general_hdr1_def decode_bcd_Inr mapE_decode_bcd bindE_def bcd_unat
        decode_bin_slice Let_def
        split: if_splits option.splits sum.splits prod.splits)
qed

lemma bslice_index:
  "index buf i = Inr x \<Longrightarrow> bslice i (Suc i) buf = [x]"
  by (auto simp: index_def bslice_def take_Suc_conv_app_nth split: if_splits)

subsection \<open>The scan type table\<close>

lemma sum_unat_zero: "sum_list (map unat buf) = 0 \<longleftrightarrow> all_zero (buf :: byte list)"
  by (induction buf) (simp_all add: all_zero_def unsigned_eq_0_iff)

lemma parse_sch_zero: "all_zero buf \<Longrightarrow> parse_sch buf = Inl SEGDScanTypeError"
  unfolding parse_sch_def sum_unat_zero by simp

lemma parse_sch_Inr:
  assumes "length buf = 32" and "\<not> all_zero buf"
  shows "\<exists>s. parse_sch buf = Inr s \<and> sch_channel_set_number s = block_channel_set_number buf"
  using assms unfolding parse_sch_def sum_unat_zero
  by (simp add: decode_bcd_Inr decode_bin_slice
      decode_bin_rev_slice bindE_Inr index_def bcd_unat block_channel_set_number_def)

lemma read_header_bytes_full:
  "pos p + n \<le> length (byte_stream p) \<Longrightarrow>
     read_header_bytes n p =
       (take n (drop (pos p) (byte_stream p)),
        p\<lparr>pos := pos p + n,
          header_block := header_block p @ take n (drop (pos p) (byte_stream p))\<rparr>)"
  by (simp add: read_header_bytes_def stream_read_full)

lemma read_sch_full:
  assumes "pos p + 32 \<le> length (byte_stream p)"
  shows "read_sch p =
     (parse_sch (block32 p 0),
      p\<lparr>pos := pos p + 32, header_block := header_block p @ block32 p 0\<rparr>)"
  using assms by (simp add: read_sch_def read_header_bytes_full block32_def)

lemma sch_blocks_Suc:
  "sch_blocks (Suc N) p = block32 p 0 # sch_blocks N (p\<lparr>pos := pos p + 32, header_block := hb\<rparr>)"
proof -
  have "[0..<Suc N] = 0 # map Suc [0..<N]"
    by (simp add: upt_conv_Cons map_Suc_upt del: upt_Suc)
  moreover have "block32 p (Suc i) = block32 (p\<lparr>pos := pos p + 32, header_block := hb\<rparr>) i" for i
    by (simp add: block32_def add.assoc)
  ultimately show ?thesis by (simp add: sch_blocks_def del: upt_Suc)
qed

lemma sch_keys_Suc:
  "sch_keys (Suc N) p =
     (if all_zero (block32 p 0) then [] else [block_channel_set_number (block32 p 0)]) @
     sch_keys N (p\<lparr>pos := pos p + 32, header_block := hb\<rparr>)"
  by (simp add: sch_keys_def sch_blocks_Suc[of N p hb])

lemma update_keys_add_key: "map fst (AList.update k v al) = add_key (map fst al) k"
  by (simp add: update_keys add_key_def)

lemma read_sch_loop_keys:
  assumes "pos p + 32 * N \<le> length (byte_stream p)"
  shows "\<exists>tab' p'. read_sch_loop N tab p = (Inr tab', p') \<and>
           pos p' = pos p + 32 * N \<and> byte_stream p' = byte_stream p \<and>
           map fst tab' = foldl add_key (map fst tab) (sch_keys N p)"
  using assms
proof (induction N arbitrary: tab p)
  case 0
  show ?case by (simp add: sch_keys_def sch_blocks_def)
next
  case (Suc N)
  let ?buf = "block32 p 0"
  let ?p = "p\<lparr>pos := pos p + 32, header_block := header_block p @ ?buf\<rparr>"
  have r: "read_sch p = (parse_sch ?buf, ?p)"
    using Suc.prems by (intro read_sch_full) simp
  have len: "length ?buf = 32" using Suc.prems by (simp add: block32_def)
  have ih: "\<exists>tab' p'. read_sch_loop N t ?p = (Inr tab', p') \<and>
           pos p' = pos ?p + 32 * N \<and> byte_stream p' = byte_stream ?p \<and>
           map fst tab' = foldl add_key (map fst t) (sch_keys N ?p)" for t
    using Suc.prems by (intro Suc.IH) simp
  show ?case
  proof (cases "all_zero ?buf")
    case True
    then have step: "read_sch_loop (Suc N) tab p = read_sch_loop N tab ?p"
      by (simp add: r parse_sch_zero)
    obtain tab' p' where t: "read_sch_loop N tab ?p = (Inr tab', p')"
        "pos p' = pos ?p + 32 * N" "byte_stream p' = byte_stream ?p"
        "map fst tab' = foldl add_key (map fst tab) (sch_keys N ?p)"
      using ih[of tab] by blast
    have "read_sch_loop (Suc N) tab p = (Inr tab', p')" by (simp only: step t(1))
    moreover have "pos p' = pos p + 32 * Suc N" using t(2) by simp
    moreover have "byte_stream p' = byte_stream p" using t(3) by simp
    moreover have "map fst tab' = foldl add_key (map fst tab) (sch_keys (Suc N) p)"
      using t(4) True by (simp add: sch_keys_Suc[of N p "header_block p @ ?buf"])
    ultimately show ?thesis by blast
  next
    case False
    then obtain s where s: "parse_sch ?buf = Inr s"
        "sch_channel_set_number s = block_channel_set_number ?buf"
      using parse_sch_Inr[OF len] by blast
    let ?tab = "AList.update (block_channel_set_number ?buf) s tab"
    have step: "read_sch_loop (Suc N) tab p = read_sch_loop N ?tab ?p"
      using s by (simp add: r)
    obtain tab' p' where t: "read_sch_loop N ?tab ?p = (Inr tab', p')"
        "pos p' = pos ?p + 32 * N" "byte_stream p' = byte_stream ?p"
        "map fst tab' = foldl add_key (map fst ?tab) (sch_keys N ?p)"
      using ih[of ?tab] by blast
    have "read_sch_loop (Suc N) tab p = (Inr tab', p')" by (simp only: step t(1))
    moreover have "pos p' = pos p + 32 * Suc N" using t(2) by simp
    moreover have "byte_stream p' = byte_stream p" using t(3) by simp
    moreover have "map fst tab' = foldl add_key (map fst tab) (sch_keys (Suc N) p)"
      using t(4) False
      by (simp add: sch_keys_Suc[of N p "header_block p @ ?buf"] update_keys_add_key)
    ultimately show ?thesis by blast
  qed
qed

lemma set_foldl_add_key: "set (foldl add_key ks xs) = set ks \<union> set xs"
  by (induction xs arbitrary: ks) (auto simp: add_key_def)

lemma distinct_foldl_add_key: "distinct ks \<Longrightarrow> distinct (foldl add_key ks xs)"
  by (induction xs arbitrary: ks) (auto simp: add_key_def)

lemma length_sch_keys:
  "length (sch_keys N p) = N - length (filter all_zero (sch_blocks N p))"
proof -
  have "length (filter all_zero (sch_blocks N p)) +
        length (filter (\<lambda>buf. \<not> all_zero buf) (sch_blocks N p)) = N"
    using sum_length_filter_compl[of all_zero "sch_blocks N p"] by (simp add: sch_blocks_def)
  then show ?thesis by (simp add: sch_keys_def)
qed

text \<open>
  Claim C3, as the code has it. When the \<open>N\<close> declared scan type blocks are in the
  file, the loop ends without error behind the last of them, every all-zero block is
  skipped, and the table has one entry for each channel set number that a block which is
  not all zero carries. Two such blocks with the same number share one entry, so the
  table has at most \<open>N - M\<close> entries, and exactly \<open>N - M\<close> when the numbers are pairwise
  different.
\<close>

theorem sch_table_entries:
  assumes "pos p + 32 * N \<le> length (byte_stream p)"
  shows "\<exists>tab p'. read_sch_loop N [] p = (Inr tab, p') \<and> pos p' = pos p + 32 * N \<and>
           distinct (map fst tab) \<and> set (map fst tab) = set (sch_keys N p) \<and>
           length tab = card (set (sch_keys N p)) \<and>
           length tab \<le> N - length (filter all_zero (sch_blocks N p)) \<and>
           (distinct (sch_keys N p) \<longrightarrow>
              length tab = N - length (filter all_zero (sch_blocks N p)))"
proof -
  obtain tab p' where t: "read_sch_loop N [] p = (Inr tab, p')" "pos p' = pos p + 32 * N"
      "map fst tab = foldl add_key [] (sch_keys N p)"
    using read_sch_loop_keys[OF assms, of "[]"] by auto
  have d: "distinct (map fst tab)" by (simp add: t(3) distinct_foldl_add_key)
  have s: "set (map fst tab) = set (sch_keys N p)" by (simp add: t(3) set_foldl_add_key)
  have c: "length tab = card (set (sch_keys N p))"
    using distinct_card[OF d] s by simp
  have "card (set (sch_keys N p)) \<le> length (sch_keys N p)" by (rule card_length)
  then have l: "length tab \<le> N - length (filter all_zero (sch_blocks N p))"
    by (simp add: c length_sch_keys)
  have "distinct (sch_keys N p) \<longrightarrow> length tab = N - length (filter all_zero (sch_blocks N p))"
    using c by (auto simp: distinct_card length_sch_keys)
  with t d s c l show ?thesis by blast
qed

theorem sch_table_entries_witness:
  "\<exists>tab p'. read_sch_loop 3 []
       (new_parser\<lparr>byte_stream := (0x01 # 0x01 # replicate 30 0) @ replicate 32 0 @
                                    (0x01 # 0x02 # replicate 30 0)\<rparr>) = (Inr tab, p') \<and>
     pos p' = 96 \<and> set (map fst tab) = {1, 2} \<and> length tab = 2"
proof -
  let ?P = "new_parser\<lparr>byte_stream := (0x01 # 0x01 # replicate 30 0) @ replicate 32 0 @
                                    (0x01 # 0x02 # replicate 30 0)\<rparr>"
  have u: "[0..<3] = [0, 1, 2 :: nat]" by code_simp
  have b: "sch_blocks 3 ?P = [0x01 # 0x01 # replicate 30 0, replicate 32 0, 0x01 # 0x02 # replicate 30 0]"
    by (simp add: sch_blocks_def block32_def new_parser_def u)
  have k: "sch_keys 3 ?P = [1, 2]"
    unfolding sch_keys_def b
    by (simp add: all_zero_def list_all_iff block_channel_set_number_def bslice_def nibbles_def)
  have z: "length (filter all_zero (sch_blocks 3 ?P)) = 1"
    unfolding b by (simp add: all_zero_def list_all_iff)
  have "pos ?P + 32 * 3 \<le> length (byte_stream ?P)" by (simp add: new_parser_def)
  from sch_table_entries [OF this, unfolded k z]
  obtain tab p' where "read_sch_loop 3 [] ?P = (Inr tab, p')" "pos p' = pos ?P + 32 * 3"
      "set (map fst tab) = set [1, 2]" "distinct [1, 2 :: nat] \<longrightarrow> length tab = 3 - 1"
    by blast
  then have "read_sch_loop 3 [] ?P = (Inr tab, p') \<and> pos p' = 96 \<and>
      set (map fst tab) = {1, 2} \<and> length tab = 2"
    by (simp add: new_parser_def insert_commute)
  then show ?thesis by blast
qed

text \<open>
  Claim C3 as stated fails: of two declared blocks none is all zero, both carry the
  channel set number 1, and the table has one entry, not two.
\<close>

theorem sch_table_duplicate_counterexample:
  "map_sum id length (fst (read_sch_loop 2 []
       (new_parser\<lparr>byte_stream := (0x01 # 0x01 # replicate 30 0) @
                                    (0x02 # 0x01 # replicate 30 0)\<rparr>))) = Inr 1 \<and>
   length (filter all_zero (sch_blocks 2
       (new_parser\<lparr>byte_stream := (0x01 # 0x01 # replicate 30 0) @
                                    (0x02 # 0x01 # replicate 30 0)\<rparr>))) = 0"
proof -
  let ?P = "new_parser\<lparr>byte_stream := (0x01 # 0x01 # replicate 30 0) @
                                    (0x02 # 0x01 # replicate 30 0)\<rparr>"
  have u: "[0..<2] = [0, 1 :: nat]" by code_simp
  have b: "sch_blocks 2 ?P = [0x01 # 0x01 # replicate 30 0, 0x02 # 0x01 # replicate 30 0]"
    by (simp add: sch_blocks_def block32_def new_parser_def u)
  have k: "sch_keys 2 ?P = [1, 1]"
    unfolding sch_keys_def b
    by (simp add: all_zero_def list_all_iff block_channel_set_number_def bslice_def nibbles_def)
  have "pos ?P + 32 * 2 \<le> length (byte_stream ?P)" by (simp add: new_parser_def)
  from read_sch_loop_keys [OF this, of "[]"]
  obtain tab p' where t: "read_sch_loop 2 [] ?P = (Inr tab, p')"
      "map fst tab = foldl add_key [] (sch_keys 2 ?P)"
    by auto
  have "length (map fst tab) = 1" unfolding t(2) k by (simp add: add_key_def)
  moreover have "length (filter all_zero (sch_blocks 2 ?P)) = 0"
    unfolding b by (simp add: all_zero_def list_all_iff)
  ultimately show ?thesis using t(1) by simp
qed

subsection \<open>The trace block\<close>

lemma decode_flt_le4:
  "length bs \<le> 4 \<Longrightarrow>
     decode_flt bs = Inr (if isnan (of_nat (be_nat bs)) then None else Some (of_nat (be_nat bs)))"
  by (simp add: decode_flt_def unpack_f_def bindE_Inr Let_def be_nat_pad)

lemma decode_flt_slice_eq:
  "b - a \<le> 4 \<Longrightarrow>
     decode_flt (bslice a b buf) =
       Inr (if isnan (of_nat (be_nat (bslice a b buf))) then None
            else Some (of_nat (be_nat (bslice a b buf))))"
  by (rule decode_flt_le4) (simp add: length_slice)

lemma parse_traceh_eb_full:
  assumes "length buf = 32" and "n < 7"
  shows "\<exists>eb. parse_traceh_eb n buf = Inr eb \<and> eb_number eb = Suc n"
proof -
  have "n \<in> {0, 1, 2, 3, 4, 5, 6}"
    using assms(2) by auto
  then show ?thesis
    using assms(1)
    by (elim insertE emptyE)
      (simp_all add: parse_traceh_eb_def parse_traceh_eb1_def parse_traceh_eb2_def
        parse_traceh_eb3_def parse_traceh_eb4_def parse_traceh_eb5_def parse_traceh_eb6_def
        parse_traceh_eb7_def decode_bin_slice decode_bin_bool_slice decode_flt_slice_eq
        decode_dbl_slice bindE_Inr)
qed

lemma read_eb_bytes_full:
  assumes "pos p + 32 \<le> length (byte_stream p)" and "traceh_list p \<noteq> []"
  shows "read_eb_bytes p =
     (Inr (take 32 (drop (pos p) (byte_stream p))),
      p\<lparr>pos := pos p + 32,
        traceh_list := butlast (traceh_list p) @
          [last (traceh_list p) @ take 32 (drop (pos p) (byte_stream p))]\<rparr>)"
  using assms by (simp add: read_eb_bytes_def stream_read_full)

lemma read_traceh_eb_full:
  assumes "pos p + 32 \<le> length (byte_stream p)" and "traceh_list p \<noteq> []" and "n < 7"
  shows "read_traceh_eb n p =
     (parse_traceh_eb n (take 32 (drop (pos p) (byte_stream p))),
      p\<lparr>pos := pos p + 32,
        traceh_list := butlast (traceh_list p) @
          [last (traceh_list p) @ take 32 (drop (pos p) (byte_stream p))]\<rparr>)"
  using assms by (simp add: read_traceh_eb_def bindS_def read_eb_bytes_full)

lemma take_drop_step:
  "take 32 (drop q xs) @ take (32 * k) (drop (q + 32) xs) = take (32 * Suc k) (drop q xs)"
proof -
  have "take (32 + 32 * k) (drop q xs) = take 32 (drop q xs) @ take (32 * k) (drop 32 (drop q xs))"
    by (rule take_add)
  then show ?thesis by (simp add: add.commute)
qed

lemma read_traceh_ebs_blocks:
  assumes "pos p + 32 * k \<le> length (byte_stream p)" and "traceh_list p \<noteq> []"
    and "n + k \<le> 7"
  shows "\<exists>ebs' p'. read_traceh_ebs n k ebs p = (Inr (ebs @ ebs'), p') \<and>
           map eb_number ebs' = [Suc n..<Suc (n + k)] \<and>
           (\<forall>i<k. parse_traceh_eb (n + i) (take 32 (drop (pos p + 32 * i) (byte_stream p))) =
                     Inr (ebs' ! i)) \<and>
           p' = p\<lparr>pos := pos p + 32 * k,
                  traceh_list := butlast (traceh_list p) @
                    [last (traceh_list p) @ take (32 * k) (drop (pos p) (byte_stream p))]\<rparr>"
  using assms
proof (induction k arbitrary: n ebs p)
  case 0
  then show ?case by simp
next
  case (Suc k)
  let ?buf = "take 32 (drop (pos p) (byte_stream p))"
  let ?p = "p\<lparr>pos := pos p + 32,
        traceh_list := butlast (traceh_list p) @ [last (traceh_list p) @ ?buf]\<rparr>"
  have r: "read_traceh_eb n p = (parse_traceh_eb n ?buf, ?p)"
    using Suc.prems by (intro read_traceh_eb_full) simp_all
  have "length ?buf = 32" using Suc.prems by simp
  then obtain eb where eb: "parse_traceh_eb n ?buf = Inr eb" "eb_number eb = Suc n"
    using parse_traceh_eb_full[of ?buf n] Suc.prems by auto
  have step: "read_traceh_ebs n (Suc k) ebs p = read_traceh_ebs (Suc n) k (ebs @ [eb]) ?p"
    by (simp add: r eb)
  have "\<exists>ebs' p'. read_traceh_ebs (Suc n) k (ebs @ [eb]) ?p = (Inr ((ebs @ [eb]) @ ebs'), p') \<and>
           map eb_number ebs' = [Suc (Suc n)..<Suc (Suc n + k)] \<and>
           (\<forall>i<k. parse_traceh_eb (Suc n + i)
                      (take 32 (drop (pos ?p + 32 * i) (byte_stream ?p))) = Inr (ebs' ! i)) \<and>
           p' = ?p\<lparr>pos := pos ?p + 32 * k,
                  traceh_list := butlast (traceh_list ?p) @
                    [last (traceh_list ?p) @ take (32 * k) (drop (pos ?p) (byte_stream ?p))]\<rparr>"
    using Suc.prems by (intro Suc.IH) simp_all
  then obtain ebs' p' where t:
      "read_traceh_ebs (Suc n) k (ebs @ [eb]) ?p = (Inr ((ebs @ [eb]) @ ebs'), p')"
      "map eb_number ebs' = [Suc (Suc n)..<Suc (Suc n + k)]"
      "\<forall>i<k. parse_traceh_eb (Suc n + i)
                      (take 32 (drop (pos ?p + 32 * i) (byte_stream ?p))) = Inr (ebs' ! i)"
      "p' = ?p\<lparr>pos := pos ?p + 32 * k,
                  traceh_list := butlast (traceh_list ?p) @
                    [last (traceh_list ?p) @ take (32 * k) (drop (pos ?p) (byte_stream ?p))]\<rparr>"
    by blast
  have a: "read_traceh_ebs n (Suc k) ebs p = (Inr (ebs @ (eb # ebs')), p')"
    using step t(1) by simp
  have b: "map eb_number (eb # ebs') = [Suc n..<Suc (n + Suc k)]"
    using t(2) eb(2) by (simp add: upt_conv_Cons del: upt_Suc)
  have c: "\<forall>i<Suc k. parse_traceh_eb (n + i)
              (take 32 (drop (pos p + 32 * i) (byte_stream p))) = Inr ((eb # ebs') ! i)"
  proof (intro allI impI)
    fix i assume i: "i < Suc k"
    show "parse_traceh_eb (n + i) (take 32 (drop (pos p + 32 * i) (byte_stream p))) =
            Inr ((eb # ebs') ! i)"
    proof (cases i)
      case 0
      then show ?thesis using eb(1) by simp
    next
      case (Suc j)
      then have "j < k" using i by simp
      with t(3) have "parse_traceh_eb (Suc n + j)
          (take 32 (drop (pos ?p + 32 * j) (byte_stream ?p))) = Inr (ebs' ! j)" by blast
      then show ?thesis using Suc by (simp add: add.assoc)
    qed
  qed
  have d: "p' = p\<lparr>pos := pos p + 32 * Suc k,
                  traceh_list := butlast (traceh_list p) @
                    [last (traceh_list p) @ take (32 * Suc k) (drop (pos p) (byte_stream p))]\<rparr>"
    using t(4) take_drop_step[of "pos p" "byte_stream p" k] by (simp add: add.assoc)
  from a b c d show ?case by blast
qed

lemma be_nat_single: "be_nat [x] = unat x"
  by (simp add: be_nat_def)

lemma read_traceh_full:
  assumes "pos p + 20 \<le> length (byte_stream p)"
  shows "read_traceh p =
     (parse_traceh (take 20 (drop (pos p) (byte_stream p))),
      p\<lparr>pos := pos p + 20,
        traceh_list := traceh_list p @ [take 20 (drop (pos p) (byte_stream p))]\<rparr>)"
  using assms by (simp add: read_traceh_def stream_read_full)

lemma read_trace_data_full:
  assumes "pos p + 4 * size' \<le> length (byte_stream p)"
  shows "read_trace_data size' p =
     (Inr (unpack_floats (take (4 * size') (drop (pos p) (byte_stream p)))),
      p\<lparr>pos := pos p + 4 * size'\<rparr>)"
proof -
  have "stream_read (size' * 4) p =
      (take (size' * 4) (drop (pos p) (byte_stream p)), p\<lparr>pos := pos p + size' * 4\<rparr>)"
    using assms by (intro stream_read_full) simp
  moreover have "length (take (size' * 4) (drop (pos p) (byte_stream p))) = size' * 4"
    using assms by simp
  ultimately show ?thesis by (simp add: read_trace_data_def mult.commute)
qed

text \<open>
  Claim C2. A trace block whose header declares \<open>k\<close> extension blocks (byte 9 of the
  header, \<open>k\<close> at most 7) and whose bytes are all in the file: the reader decodes the
  blocks 1 to \<open>k\<close>, in this order, each from its own 32 bytes, and merges them; the
  capture of the trace is the 20 bytes of the header and the \<open>32 * k\<close> bytes of these
  blocks, and the samples are read from the byte behind the \<open>k\<close>-th block on. Nothing
  behind the \<open>k\<close>-th block is read as an extension block.
\<close>

theorem trace_header_extensions_read:
  assumes "k \<le> 7"
    and "pos p + 20 + 32 * k + 4 * size' \<le> length (byte_stream p)"
    and "unat (byte_stream p ! (pos p + 9)) = k"
  shows "\<exists>traceh ebs data p'.
           read_trace_data_block size' p = (Inr (traceh, ebs, data), p') \<and>
           th_trace_header_extension traceh = k \<and>
           map eb_number ebs = [1..<Suc k] \<and>
           (\<forall>i<k. parse_traceh_eb i (eb_block p i) = Inr (ebs ! i)) \<and>
           data = unpack_floats (take (4 * size') (drop (pos p + 20 + 32 * k) (byte_stream p))) \<and>
           p' = p\<lparr>pos := pos p + 20 + 32 * k + 4 * size',
                  traceh_list := traceh_list p @
                    [take (20 + 32 * k) (drop (pos p) (byte_stream p))]\<rparr>"
proof -
  let ?hdr = "take 20 (drop (pos p) (byte_stream p))"
  let ?p1 = "p\<lparr>pos := pos p + 20, traceh_list := traceh_list p @ [?hdr]\<rparr>"
  have r1: "read_traceh p = (parse_traceh ?hdr, ?p1)"
    using assms(2) by (intro read_traceh_full) simp
  have len: "length ?hdr = 20" using assms(2) by simp
  then have "index ?hdr 9 = Inr (?hdr ! 9)" by (simp add: index_def)
  then have "bslice 9 10 ?hdr = [?hdr ! 9]" using bslice_index[of ?hdr 9] by simp
  moreover have "?hdr ! 9 = byte_stream p ! (pos p + 9)"
    using assms(2) by simp
  ultimately have k: "be_nat (bslice 9 10 ?hdr) = k"
    using assms(3) by (simp add: be_nat_single)
  obtain traceh where t: "parse_traceh ?hdr = Inr traceh" "th_trace_header_extension traceh = k"
    using parse_traceh_Inr[of ?hdr] k by auto
  have "\<exists>ebs' p'. read_traceh_ebs 0 k [] ?p1 = (Inr ([] @ ebs'), p') \<and>
           map eb_number ebs' = [Suc 0..<Suc (0 + k)] \<and>
           (\<forall>i<k. parse_traceh_eb (0 + i)
                      (take 32 (drop (pos ?p1 + 32 * i) (byte_stream ?p1))) = Inr (ebs' ! i)) \<and>
           p' = ?p1\<lparr>pos := pos ?p1 + 32 * k,
                  traceh_list := butlast (traceh_list ?p1) @
                    [last (traceh_list ?p1) @ take (32 * k) (drop (pos ?p1) (byte_stream ?p1))]\<rparr>"
    using assms(1,2) by (intro read_traceh_ebs_blocks) simp_all
  then obtain ebs p2 where e: "read_traceh_ebs 0 k [] ?p1 = (Inr ebs, p2)"
      "map eb_number ebs = [Suc 0..<Suc k]"
      "\<forall>i<k. parse_traceh_eb i (take 32 (drop (pos p + 20 + 32 * i) (byte_stream p))) =
               Inr (ebs ! i)"
      "p2 = p\<lparr>pos := pos p + 20 + 32 * k,
             traceh_list := traceh_list p @
               [?hdr @ take (32 * k) (drop (pos p + 20) (byte_stream p))]\<rparr>"
    by auto
  have "?hdr @ take (32 * k) (drop (pos p + 20) (byte_stream p)) =
        take (20 + 32 * k) (drop (pos p) (byte_stream p))"
    using take_add[of 20 "32 * k" "drop (pos p) (byte_stream p)"] by (simp add: add.commute)
  then have p2: "p2 = p\<lparr>pos := pos p + 20 + 32 * k,
             traceh_list := traceh_list p @
               [take (20 + 32 * k) (drop (pos p) (byte_stream p))]\<rparr>"
    using e(4) by simp
  have "pos p2 + 4 * size' \<le> length (byte_stream p2)" using assms(2) p2 by simp
  from read_trace_data_full[OF this]
  have r3: "read_trace_data size' p2 =
     (Inr (unpack_floats (take (4 * size') (drop (pos p + 20 + 32 * k) (byte_stream p)))),
      p\<lparr>pos := pos p + 20 + 32 * k + 4 * size',
        traceh_list := traceh_list p @ [take (20 + 32 * k) (drop (pos p) (byte_stream p))]\<rparr>)"
    by (simp add: p2)
  have "read_trace_data_block size' p =
     (Inr (traceh, ebs,
           unpack_floats (take (4 * size') (drop (pos p + 20 + 32 * k) (byte_stream p)))),
      p\<lparr>pos := pos p + 20 + 32 * k + 4 * size',
        traceh_list := traceh_list p @ [take (20 + 32 * k) (drop (pos p) (byte_stream p))]\<rparr>)"
    by (simp add: read_trace_data_block_def bindS_def r1 t e(1) r3)
  moreover have "\<forall>i<k. parse_traceh_eb i (eb_block p i) = Inr (ebs ! i)"
    using e(3) by (simp add: eb_block_def)
  moreover have "map eb_number ebs = [1..<Suc k]" using e(2) by simp
  ultimately show ?thesis using t(2) by blast
qed

theorem trace_header_extensions_read_witness:
  "\<exists>traceh ebs data p'.
     read_trace_data_block 2
       (new_parser\<lparr>byte_stream := replicate 9 0 @ [3] @ replicate 10 0 @ replicate 96 0x11 @
                                    [0x3F, 0x80, 0, 0, 0x40, 0, 0, 0] @ replicate 32 0x22\<rparr>) =
       (Inr (traceh, ebs, data), p') \<and>
     th_trace_header_extension traceh = 3 \<and> map eb_number ebs = [1, 2, 3] \<and>
     data = [0x3F800000, 0x40000000] \<and> pos p' = 124 \<and>
     traceh_list p' = [replicate 9 0 @ [3] @ replicate 10 0 @ replicate 96 0x11]"
proof -
  let ?P = "new_parser\<lparr>byte_stream := replicate 9 0 @ [3] @ replicate 10 0 @ replicate 96 0x11 @
                                    [0x3F, 0x80, 0, 0, 0x40, 0, 0, 0] @ replicate 32 0x22\<rparr>"
  have h1: "(3::nat) \<le> 7" by simp
  have h2: "pos ?P + 20 + 32 * 3 + 4 * 2 \<le> length (byte_stream ?P)"
    by (simp add: new_parser_def)
  have h3: "unat (byte_stream ?P ! (pos ?P + 9)) = 3"
    by (simp add: new_parser_def nth_append)
  have u: "[Suc 0..<4] = [Suc 0, 2, 3]" by code_simp
  from trace_header_extensions_read [OF h1 h2 h3]
  obtain traceh ebs data p' where
      "read_trace_data_block 2 ?P = (Inr (traceh, ebs, data), p')"
      "th_trace_header_extension traceh = 3" "map eb_number ebs = [1..<Suc 3]"
      "data = unpack_floats (take (4 * 2) (drop (pos ?P + 20 + 32 * 3) (byte_stream ?P)))"
      "p' = ?P\<lparr>pos := pos ?P + 20 + 32 * 3 + 4 * 2,
                  traceh_list := traceh_list ?P @
                    [take (20 + 32 * 3) (drop (pos ?P) (byte_stream ?P))]\<rparr>"
    by blast
  then have "read_trace_data_block 2 ?P = (Inr (traceh, ebs, data), p') \<and>
     th_trace_header_extension traceh = 3 \<and> map eb_number ebs = [1, 2, 3] \<and>
     data = [0x3F800000, 0x40000000] \<and> pos p' = 124 \<and>
     traceh_list p' = [replicate 9 0 @ [3] @ replicate 10 0 @ replicate 96 0x11]"
    by (simp add: u new_parser_def be_nat_def)
  then show ?thesis by (intro exI[of _ traceh] exI[of _ ebs] exI[of _ data] exI[of _ p'])
qed

subsection \<open>Closing the stream\<close>

lemma keeps_closedI: "(\<And>p. stream_closed (snd (m p)) = stream_closed p) \<Longrightarrow> keeps_closed m"
  by (simp add: keeps_closed_def)

lemma keeps_closedD: "keeps_closed m \<Longrightarrow> m p = (r, p') \<Longrightarrow> stream_closed p' = stream_closed p"
  by (metis keeps_closed_def snd_conv)

lemma keeps_closed_bindS:
  assumes "keeps_closed m" and "\<And>x. keeps_closed (f x)"
  shows "keeps_closed (bindS m f)"
proof (rule keeps_closedI)
  fix p
  obtain r p' where m: "m p = (r, p')" by (cases "m p")
  then have c: "stream_closed p' = stream_closed p" using assms(1) by (rule keeps_closedD[rotated])
  show "stream_closed (snd (bindS m f p)) = stream_closed p"
  proof (cases r)
    case (Inl e)
    then show ?thesis using m c by (simp add: bindS_def)
  next
    case (Inr x)
    obtain r' p'' where f: "f x p' = (r', p'')" by (cases "f x p'")
    then have "stream_closed p'' = stream_closed p'" using assms(2) by (rule keeps_closedD[rotated])
    then show ?thesis using m c f Inr by (simp add: bindS_def)
  qed
qed

lemma keeps_closed_pure: "keeps_closed (\<lambda>p. (r, p))"
  by (simp add: keeps_closed_def)

lemma keeps_closed_read_sch: "keeps_closed read_sch"
  by (simp add: keeps_closed_def read_sch_def read_header_bytes_def stream_read_def Let_def)

lemma keeps_closed_read_sch_loop: "keeps_closed (read_sch_loop N tab)"
proof (induction N arbitrary: tab)
  case 0
  show ?case by (simp add: keeps_closed_def)
next
  case (Suc N)
  show ?case
  proof (rule keeps_closedI)
    fix p
    obtain r p' where m: "read_sch p = (r, p')" by (cases "read_sch p")
    then have c: "stream_closed p' = stream_closed p"
      using keeps_closed_read_sch by (rule keeps_closedD[rotated])
    have l: "stream_closed (snd (read_sch_loop N t p')) = stream_closed p'" for t
      using Suc.IH[of t] by (simp add: keeps_closed_def)
    show "stream_closed (snd (read_sch_loop (Suc N) tab p)) = stream_closed p"
      using m c l by (simp split: sum.splits error.splits)
  qed
qed

lemma keeps_closed_read_headers: "keeps_closed (read_headers utc)"
  unfolding read_headers_def
  by (intro keeps_closed_bindS keeps_closed_pure keeps_closed_read_sch_loop)
    (simp_all add: keeps_closed_def read_general_hdr1_def read_general_hdr2_def
      read_general_hdr3_def read_extended_header_def read_external_header_def
      read_header_bytes_def stream_read_def Let_def)

lemma keeps_closed_read_traceh_eb: "keeps_closed (read_traceh_eb n)"
proof -
  have "keeps_closed read_eb_bytes"
    by (simp add: keeps_closed_def read_eb_bytes_def stream_read_def Let_def)
  then have "keeps_closed (bindS read_eb_bytes (\<lambda>buf p'. (parse_traceh_eb n buf, p')))"
    by (intro keeps_closed_bindS keeps_closed_pure)
  then show ?thesis by (simp add: keeps_closed_def read_traceh_eb_def)
qed

lemma keeps_closed_read_traceh_ebs: "keeps_closed (read_traceh_ebs n k ebs)"
proof (induction k arbitrary: n ebs)
  case 0
  show ?case by (simp add: keeps_closed_def)
next
  case (Suc k)
  show ?case
  proof (rule keeps_closedI)
    fix p
    obtain r p' where m: "read_traceh_eb n p = (r, p')" by (cases "read_traceh_eb n p")
    then have c: "stream_closed p' = stream_closed p"
      using keeps_closed_read_traceh_eb by (rule keeps_closedD[rotated])
    have l: "stream_closed (snd (read_traceh_ebs (Suc n) k e p')) = stream_closed p'" for e
      using Suc.IH[of "Suc n" e] by (simp add: keeps_closed_def)
    show "stream_closed (snd (read_traceh_ebs n (Suc k) ebs p)) = stream_closed p"
      using m c l by (simp split: sum.splits)
  qed
qed

lemma keeps_closed_read_trace_data_block: "keeps_closed (read_trace_data_block size')"
  unfolding read_trace_data_block_def
  by (intro keeps_closed_bindS keeps_closed_pure keeps_closed_read_traceh_ebs)
    (simp_all add: keeps_closed_def read_traceh_def read_trace_data_def stream_read_def Let_def)

lemma keeps_closed_read_traces_loop: "keeps_closed (read_traces_loop h sr size' n st c)"
proof (induction n arbitrary: st c)
  case 0
  show ?case by (simp add: keeps_closed_def)
next
  case (Suc n)
  show ?case
  proof (rule keeps_closedI)
    fix p
    obtain r p' where m: "read_trace_data_block size' p = (r, p')"
      by (cases "read_trace_data_block size' p")
    then have k: "stream_closed p' = stream_closed p"
      using keeps_closed_read_trace_data_block by (rule keeps_closedD[rotated])
    have l: "stream_closed (snd (read_traces_loop h sr size' n s b p')) = stream_closed p'" for s b
      using Suc.IH[of s b] by (simp add: keeps_closed_def)
    show "stream_closed (snd (read_traces_loop h sr size' (Suc n) st c p)) = stream_closed p"
      using m k l by (simp add: Let_def split: sum.splits option.splits prod.splits)
  qed
qed

lemma keeps_closed_read_blocks: "keeps_closed (read_blocks utc)"
proof -
  have "keeps_closed (read_traces h)" for h
    using keeps_closed_read_traces_loop by (simp add: read_traces_def Let_def)
  moreover have "keeps_closed (case x of (st, convert_to_int) \<Rightarrow> \<lambda>p. (Inr (h, st, convert_to_int), p))"
    for x :: "trace list \<times> bool" and h :: segd_headers
    by (cases x) (simp add: keeps_closed_def)
  ultimately show ?thesis
    unfolding read_blocks_def
    by (intro keeps_closed_bindS keeps_closed_read_headers)
qed

text \<open>
  Claim C4, as the code has it. \<open>read_segd\<close> closes the stream by the one \<open>close()\<close>
  behind the loop over the trace blocks and nowhere else. The stream is closed when
  \<open>read_segd\<close> is left exactly when every block was read without an exception: then it
  is closed before the sample matrix is built, whether building it fails or not; when a
  block read raises, the stream is left open.
\<close>

theorem stream_closed_iff_blocks_read:
  "stream_closed (snd (read_segd utc file p0)) \<longleftrightarrow>
     (\<exists>x. fst (read_blocks utc (p0\<lparr>byte_stream := file, pos := 0, stream_closed := False\<rparr>)) = Inr x)"
proof -
  let ?p = "p0\<lparr>byte_stream := file, pos := 0, stream_closed := False\<rparr>"
  obtain r p' where b: "read_blocks utc ?p = (r, p')" by (cases "read_blocks utc ?p")
  then have "stream_closed p' = stream_closed ?p"
    using keeps_closed_read_blocks by (rule keeps_closedD[rotated])
  then have c: "\<not> stream_closed p'" by simp
  show ?thesis
  proof (cases r)
    case (Inl e)
    then show ?thesis using b c by (simp add: read_segd_def)
  next
    case (Inr x)
    then show ?thesis using b by (simp add: read_segd_def Let_def split: prod.splits sum.splits)
  qed
qed

text \<open>
  Claim C4 as stated fails: on a file with the format code 8015 the decode raises
  \<open>SEGDNotImplemented\<close> and the stream is still open.
\<close>

theorem stream_left_open_counterexample:
  "fst (read_segd (\<lambda>_ _ _ _ _. None) ([0x00, 0x01, 0x80, 0x15] @ replicate 96 0) new_parser) =
     Inl SEGDNotImplemented \<and>
   \<not> stream_closed
        (snd (read_segd (\<lambda>_ _ _ _ _. None) ([0x00, 0x01, 0x80, 0x15] @ replicate 96 0) new_parser))"
proof -
  have "decode_bcd (bslice 2 4 (take 32 ([0x00, 0x01, 0x80, 0x15] @ replicate 96 0))) \<noteq> Inr 8058"
    by (simp add: bslice_def decode_bcd_Inr nibbles_def)
  from read_segd_bad_format [OF this, of "\<lambda>_ _ _ _ _. None" new_parser]
  show ?thesis by simp
qed

subsection \<open>The integer flag\<close>

lemma length_unpack_floats: "length (unpack_floats bs) \<le> length bs div 4"
  by (induction bs rule: unpack_floats.induct) simp_all

lemma read_trace_data_length:
  assumes "read_trace_data size' p = (Inr data, p')"
  shows "length data \<le> size'"
proof -
  let ?tmp = "take (size' * 4) (drop (pos p) (byte_stream p))"
  have "data = unpack_floats ?tmp"
    using assms by (simp add: read_trace_data_def stream_read_def Let_def split: if_splits)
  moreover have "length ?tmp div 4 \<le> size'" by simp
  ultimately show ?thesis
    using length_unpack_floats[of ?tmp] by simp
qed

lemma read_trace_data_block_length:
  assumes "read_trace_data_block size' p = (Inr (traceh, ebs, data), p')"
  shows "length data \<le> size'"
proof -
  obtain r1 p1 where a: "read_traceh p = (r1, p1)" by (cases "read_traceh p")
  with assms obtain t where t: "r1 = Inr t"
    by (cases r1) (simp_all add: read_trace_data_block_def bindS_def)
  obtain r2 p2 where b: "read_traceh_ebs 0 (th_trace_header_extension t) [] p1 = (r2, p2)"
    by (cases "read_traceh_ebs 0 (th_trace_header_extension t) [] p1")
  with assms a t obtain e where e: "r2 = Inr e"
    by (cases r2) (simp_all add: read_trace_data_block_def bindS_def)
  obtain r3 p3 where c: "read_trace_data size' p2 = (r3, p3)"
    by (cases "read_trace_data size' p2")
  with assms a t b e have "r3 = Inr data"
    by (cases r3) (simp_all add: read_trace_data_block_def bindS_def)
  with c show ?thesis using read_trace_data_length by blast
qed

lemma read_traces_loop_flag:
  assumes "read_traces_loop h sr size' n st c p = (Inr (st', c'), p')"
  shows "\<exists>new. st' = st @ new \<and>
           c' = (c \<and> list_all (\<lambda>t. list_all mod1_is_zero (tr_data t)) new) \<and>
           list_all (\<lambda>t. length (tr_data t) \<le> size') new"
  using assms
proof (induction n arbitrary: st c p)
  case 0
  then show ?case by simp
next
  case (Suc n)
  obtain r p1 where b: "read_trace_data_block size' p = (r, p1)"
    by (cases "read_trace_data_block size' p")
  with Suc.prems obtain traceh ebs data where r: "r = Inr (traceh, ebs, data)"
    by (cases r) auto
  have len: "length data \<le> size'"
    using b r read_trace_data_block_length by blast
  from Suc.prems b r have z: "sr \<noteq> 0"
    by (auto simp: Let_def split: if_splits)
  with Suc.prems b r obtain s where s: "map_of (sch h) (th_channel_set_number traceh) = Some s"
    by (cases "map_of (sch h) (th_channel_set_number traceh)") (auto simp: Let_def)
  let ?tr = "\<lparr>tr_data = data, tr_channel = band_code (fl64 (1 / sr)), tr_delta = sr,
              tr_sch = s, tr_traceh = traceh, tr_traceh_ebs = ebs\<rparr>"
  have "read_traces_loop h sr size' n (st @ [?tr]) (c \<and> list_all mod1_is_zero data) p1 =
          (Inr (st', c'), p')"
    using Suc.prems b r z s by (simp add: Let_def)
  from Suc.IH[OF this] obtain new where n:
      "st' = (st @ [?tr]) @ new"
      "c' = ((c \<and> list_all mod1_is_zero data) \<and>
             list_all (\<lambda>t. list_all mod1_is_zero (tr_data t)) new)"
      "list_all (\<lambda>t. length (tr_data t) \<le> size') new"
    by blast
  have "st' = st @ (?tr # new)" using n(1) by simp
  moreover have "c' = (c \<and> list_all (\<lambda>t. list_all mod1_is_zero (tr_data t)) (?tr # new))"
    using n(2) by simp
  moreover have "list_all (\<lambda>t. length (tr_data t) \<le> size') (?tr # new)"
    using n(3) len by simp
  ultimately show ?case by blast
qed

lemma assign_row_all:
  assumes "assign_row npts data = Inr row" and "length data \<le> npts"
  shows "list_all P row = list_all P data"
proof (cases "length data = npts")
  case True
  then show ?thesis using assms by (simp add: assign_row_def)
next
  case False
  with assms have l: "length data = 1" and row: "row = replicate npts (hd data)"
    by (auto simp: assign_row_def split: if_splits)
  from l obtain x where x: "data = [x]" by (cases data) auto
  have "0 < npts" using assms(2) l by simp
  then show ?thesis using row x by (simp add: list_all_iff)
qed

lemma mapE_assign_row_all:
  assumes "mapE (assign_row npts) ds = Inr m" and "list_all (\<lambda>d. length d \<le> npts) ds"
  shows "list_all (list_all P) m = list_all (list_all P) ds"
  using assms
proof (induction ds arbitrary: m)
  case Nil
  then show ?case by simp
next
  case (Cons d ds)
  from Cons.prems(1) obtain row where row: "assign_row npts d = Inr row"
    by (cases "assign_row npts d") (simp_all add: bindE_def)
  with Cons.prems(1) obtain rows where rows: "mapE (assign_row npts) ds = Inr rows"
    by (cases "mapE (assign_row npts) ds") (simp_all add: bindE_def)
  have m: "m = row # rows" using Cons.prems(1) row rows by (simp add: bindE_def)
  have d: "length d \<le> npts" and ds: "list_all (\<lambda>d. length d \<le> npts) ds"
    using Cons.prems(2) by simp_all
  have "list_all P row = list_all P d"
    using row d by (rule assign_row_all)
  moreover have "list_all (list_all P) rows = list_all (list_all P) ds"
    using rows ds by (rule Cons.IH)
  ultimately show ?case using m by simp
qed

lemma read_segd_flag:
  assumes "read_segd utc file p0 = (Inr r, p')"
  shows "res_convert_to_int r = list_all (list_all mod1_is_zero) (res_traces_data r) \<and>
         res_convert_to_int r = list_all (\<lambda>t. list_all mod1_is_zero (tr_data t)) (res_st r) \<and>
         stream_closed p'"
proof -
  let ?p = "p0\<lparr>byte_stream := file, pos := 0, stream_closed := False\<rparr>"
  obtain b p1 where b: "read_blocks utc ?p = (b, p1)" by (cases "read_blocks utc ?p")
  with assms obtain h st c where x: "b = Inr (h, st, c)"
    by (cases b) (auto simp: read_segd_def)
  let ?npts = "extdh_number_of_samples_in_trace (extdh h)"
  from assms b x obtain m where m: "mapE (assign_row ?npts) (map tr_data st) = Inr m"
    by (cases "mapE (assign_row ?npts) (map tr_data st)") (simp_all add: read_segd_def Let_def)
  have r: "r = \<lparr>res_headers = h, res_st = st, res_traces_data = m, res_convert_to_int = c\<rparr>"
    and p': "p' = p1\<lparr>stream_closed := True\<rparr>"
    using assms b x m by (simp_all add: read_segd_def Let_def)
  obtain hr p2 where hr: "read_headers utc ?p = (hr, p2)" by (cases "read_headers utc ?p")
  with b x have hh: "hr = Inr h"
    by (cases hr) (auto simp: read_blocks_def bindS_def split: prod.splits sum.splits)
  obtain tr p3 where tr: "read_traces h p2 = (tr, p3)" by (cases "read_traces h p2")
  with b x hr hh have "tr = Inr (st, c)"
    by (cases tr) (auto simp: read_blocks_def bindS_def)
  with tr have "read_traces_loop h
      (fl64 (of_nat (extdh_sample_rate_in_us (extdh h)) / 1000000)) ?npts
      (extdh_total_number_of_traces (extdh h)) [] True p2 = (Inr (st, c), p3)"
    by (simp add: read_traces_def Let_def)
  from read_traces_loop_flag[OF this]
  have c: "c = list_all (\<lambda>t. list_all mod1_is_zero (tr_data t)) st"
    and l: "list_all (\<lambda>t. length (tr_data t) \<le> ?npts) st"
    by auto
  have "list_all (\<lambda>d. length d \<le> ?npts) (map tr_data st)"
    using l by (simp add: list_all_iff)
  from mapE_assign_row_all[OF m this, of mod1_is_zero]
  have "list_all (list_all mod1_is_zero) m = list_all (\<lambda>t. list_all mod1_is_zero (tr_data t)) st"
    by (simp add: list_all_iff)
  then show ?thesis using c r p' by simp
qed

lemma floor_rat_numeral: "\<lfloor>numeral a / numeral b :: rat\<rfloor> = numeral a div numeral b"
  by (metis floor_divide_of_int_eq of_int_numeral)

lemma floor_rat_one_numeral: "\<lfloor>1 / numeral b :: rat\<rfloor> = 1 div numeral b"
  by (metis floor_divide_of_int_eq of_int_1 of_int_numeral)

lemmas f32_eval = mod1_is_zero_def f32_value_def f32_exponent_def f32_mantissa_def Let_def
  power_int_minus floor_rat_numeral floor_rat_one_numeral

lemma round_half_even_ge_floor: "\<lfloor>x\<rfloor> \<le> round_half_even x"
  by (simp add: round_half_even_def Let_def)

lemma fl64_nonzero:
  assumes "2 powi e \<le> x" and "x < 2 powi (e + 1)" and "- 1022 \<le> e"
  shows "fl64 x \<noteq> 0"
proof -
  have m: "max e (- 1022) = e" using assms(3) by simp
  have f: "fl64 x = of_int (round_half_even (x / 2 powi (e - 52))) * 2 powi (e - 52)"
    using fl64_eval[OF assms(1,2)] by (simp only: m)
  have "(2::rat) powi e = 2 powi 52 * 2 powi (e - 52)"
    using power_int_add[of "2::rat" 52 "e - 52"] by simp
  then have "2 powi 52 * 2 powi (e - 52) \<le> x" using assms(1) by simp
  then have "(2::rat) powi 52 \<le> x / 2 powi (e - 52)"
    by (simp add: pos_le_divide_eq)
  moreover have "(1::rat) \<le> 2 powi 52" by simp
  ultimately have "(1::rat) \<le> x / 2 powi (e - 52)" by (rule order_trans[rotated])
  then have "(of_int 1 :: rat) \<le> x / 2 powi (e - 52)" by (simp only: of_int_1)
  then have "1 \<le> \<lfloor>x / 2 powi (e - 52)\<rfloor>" by (simp only: le_floor_iff)
  from this round_half_even_ge_floor[of "x / 2 powi (e - 52)"]
  have "1 \<le> round_half_even (x / 2 powi (e - 52))" by (rule order_trans)
  then show ?thesis by (simp add: f)
qed

lemma sample_rate_nonzero: "fl64 (1 / 1000) \<noteq> 0"
  by (rule fl64_nonzero[of "- 10"]) (simp_all add: power_int_minus)

lemma read_traces_loop_2:
  "read_traces_loop h sr sz 2 st c p = read_traces_loop h sr sz (Suc (Suc 0)) st c p"
  by (simp add: numeral_2_eq_2)

lemma sample_record_decodes:
  "\<exists>r p'. read_segd (\<lambda>_ _ _ _ _. None) sample_record new_parser = (Inr r, p') \<and>
     res_traces_data r = [[0x3F800000, 0x40000000], [0x3F000000, 0x40400000]] \<and>
     pos p' = 792"
  by (simp add: read_segd_def read_blocks_def read_traces_def read_traces_loop_2
      read_trace_data_block_def read_traceh_def read_trace_data_def parse_traceh_def
      assign_row_def sample_rate_nonzero
      read_headers_def bindS_def read_general_hdr1_def read_general_hdr2_def
      read_general_hdr3_def read_sch_def read_extended_header_def read_external_header_def
      external_header_size_def read_header_bytes_def stream_read_def Let_def
      sample_record_def new_parser_def
      parse_general_hdr1_def parse_general_hdr2_def parse_general_hdr3_def parse_sch_def
      parse_extended_header_def decode_bcd_Inr mapE_decode_bcd bindE_Inr bcd_unat
      decode_bin_le4 be_nat_def decode_dbl_def ord_def index_def bslice_def nibbles_def)

text \<open>
  Claim C10. After a decode that returns, \<open>convert_to_int\<close> holds exactly when every
  value of the sample matrix is a whole number (\<open>np.mod(x, 1) == 0\<close>), which is exactly
  when every sample of every trace is one.
\<close>

theorem integer_flag:
  assumes "read_segd utc file p0 = (Inr r, p')"
  shows "res_convert_to_int r = list_all (list_all mod1_is_zero) (res_traces_data r) \<and>
         res_convert_to_int r = list_all (\<lambda>t. list_all mod1_is_zero (tr_data t)) (res_st r)"
  using read_segd_flag[OF assms] by blast

theorem integer_flag_witness:
  "\<exists>r p'. read_segd (\<lambda>_ _ _ _ _. None) sample_record new_parser = (Inr r, p') \<and>
     res_traces_data r = [[0x3F800000, 0x40000000], [0x3F000000, 0x40400000]] \<and>
     mod1_is_zero 0x3F800000 \<and> mod1_is_zero 0x40000000 \<and> \<not> mod1_is_zero 0x3F000000 \<and>
     res_convert_to_int r = False \<and> stream_closed p'"
proof -
  obtain r p' where d: "read_segd (\<lambda>_ _ _ _ _. None) sample_record new_parser = (Inr r, p')"
      "res_traces_data r = [[0x3F800000, 0x40000000], [0x3F000000, 0x40400000]]"
    using sample_record_decodes by blast
  have m: "mod1_is_zero 0x3F800000" "mod1_is_zero 0x40000000" "\<not> mod1_is_zero 0x3F000000"
    by (simp_all add: f32_eval)
  have c: "stream_closed p'" using read_segd_flag[OF d(1)] by blast
  from integer_flag [OF d(1)] have "res_convert_to_int r = False"
    by (simp add: d(2) m)
  with d m c show ?thesis by blast
qed

subsection \<open>The bytes consumed by the header readers\<close>

lemma bindS_InrD:
  assumes "bindS m f p = (Inr y, p')"
  obtains x p1 where "m p = (Inr x, p1)" and "f x p1 = (Inr y, p')"
  using assms by (auto simp: bindS_def split: prod.splits sum.splits)

lemma read_header_bytes_prefix:
  assumes "byte_stream p = file" and "pos p = min (length file) a"
    and "header_block p = hb @ take (pos p) file"
    and "read_header_bytes n p = (buf, p')"
  shows "byte_stream p' = file \<and> pos p' = min (length file) (a + n) \<and>
     header_block p' = hb @ take (pos p') file \<and> buf = take n (drop (pos p) file)"
proof -
  have b: "buf = take n (drop (pos p) file)"
    and p': "p' = p\<lparr>pos := pos p + length buf, header_block := header_block p @ buf\<rparr>"
    using assms(1,4) by (auto simp: read_header_bytes_def stream_read_def Let_def)
  have l: "pos p + length buf = min (length file) (a + n)"
    using assms(2) by (auto simp: b min_def)
  have "take (pos p) file @ buf = take (pos p + n) file"
    by (simp add: b take_add)
  also have "\<dots> = take (min (length file) (a + n)) file"
    using assms(2) by (auto simp: min_def)
  finally have "take (pos p) file @ buf = take (min (length file) (a + n)) file" .
  then show ?thesis using assms(1,3) b l by (simp add: p')
qed

lemma read_sch_prefix:
  assumes "byte_stream p = file" and "pos p = min (length file) a"
    and "header_block p = hb @ take (pos p) file"
    and "read_sch p = (r, p')"
  shows "byte_stream p' = file \<and> pos p' = min (length file) (a + 32) \<and>
     header_block p' = hb @ take (pos p') file"
proof -
  obtain buf q where q: "read_header_bytes 32 p = (buf, q)" by (cases "read_header_bytes 32 p")
  with assms(4) have "p' = q" by (simp add: read_sch_def)
  with read_header_bytes_prefix[OF assms(1-3) q] show ?thesis by simp
qed

lemma read_sch_loop_prefix:
  assumes "read_sch_loop N tab p = (r, p')"
    and "byte_stream p = file" and "pos p = min (length file) a"
    and "header_block p = hb @ take (pos p) file"
    and "r = Inr t"
  shows "byte_stream p' = file \<and> pos p' = min (length file) (a + 32 * N) \<and>
     header_block p' = hb @ take (pos p') file"
  using assms
proof (induction N arbitrary: tab p a)
  case 0
  then show ?case by simp
next
  case (Suc N)
  obtain r1 p1 where s: "read_sch p = (r1, p1)" by (cases "read_sch p")
  note i = read_sch_prefix[OF Suc.prems(2-4) s]
  from i have i1: "byte_stream p1 = file" and i2: "pos p1 = min (length file) (a + 32)"
    and i3: "header_block p1 = hb @ take (pos p1) file" by simp_all
  from Suc.prems(1,5) s obtain tab' where "read_sch_loop N tab' p1 = (r, p')"
    by (auto split: sum.splits error.splits)
  from Suc.IH[OF this i1 i2 i3 Suc.prems(5)] show ?case by (simp add: add.assoc)
qed

lemma parse_after_read_prefix:
  assumes "byte_stream p = file" and "pos p = min (length file) a"
    and "header_block p = hb @ take (pos p) file"
    and "(case read_header_bytes n p of (buf, p') \<Rightarrow> (f buf, p')) = (r, p')"
  shows "byte_stream p' = file \<and> pos p' = min (length file) (a + n) \<and>
     header_block p' = hb @ take (pos p') file \<and> r = f (take n (drop (pos p) file))"
proof -
  obtain buf q where q: "read_header_bytes n p = (buf, q)" by (cases "read_header_bytes n p")
  with assms(4) have "p' = q" and "r = f buf" by simp_all
  with read_header_bytes_prefix[OF assms(1-3) q] show ?thesis by simp
qed

lemma read_segd_headers:
  assumes "read_segd utc file p0 = (Inr r, p')"
  shows "\<exists>p1. read_headers utc (p0\<lparr>byte_stream := file, pos := 0, stream_closed := False\<rparr>) =
     (Inr (res_headers r), p1)"
  using assms
  by (auto simp: read_segd_def read_blocks_def bindS_def Let_def
      split: prod.splits sum.splits)

lemma sample_record_ext_decodes:
  "\<exists>r p'. read_segd (\<lambda>_ _ _ _ _. None) sample_record_ext new_parser = (Inr r, p') \<and>
     gh1_n_channel_sets_per_record (generalh1 (res_headers r)) = 1 \<and>
     gh1_extended_header_length (generalh1 (res_headers r)) = 19 \<and>
     gh2_external_header_blocks (generalh2 (res_headers r)) = 2 \<and>
     pos p' = 856"
  by (simp add: read_segd_def read_blocks_def read_traces_def read_traces_loop_2
      read_trace_data_block_def read_traceh_def read_trace_data_def parse_traceh_def
      assign_row_def sample_rate_nonzero
      read_headers_def bindS_def read_general_hdr1_def read_general_hdr2_def
      read_general_hdr3_def read_sch_def read_extended_header_def read_external_header_def
      external_header_size_def read_header_bytes_def stream_read_def Let_def
      sample_record_ext_def new_parser_def
      parse_general_hdr1_def parse_general_hdr2_def parse_general_hdr3_def parse_sch_def
      parse_extended_header_def decode_bcd_Inr mapE_decode_bcd bindE_Inr bcd_unat
      decode_bin_le4 be_nat_def decode_dbl_def ord_def index_def bslice_def nibbles_def)

lemma sample_external_header:
  "decode_asc
     [0x30, 0x31, 0x32, 0x33, 0x34, 0x35, 0x36, 0x37, 0x38, 0x39, 0x61, 0x62, 0x63, 0x64,
      0x65, 0x66, 0x67, 0x68, 0x69, 0x6A, 0x6B, 0x6C, 0x6D, 0x6E, 0x6F, 0x70, 0x71, 0x72,
      0x73, 0x74, 0x75, 0x76, 0x77, 0x78, 0x79, 0x7A, 0x41, 0x42, 0x43, 0x44, 0x45, 0x46,
      0x47, 0x48, 0x49, 0x4A, 0x4B, 0x4C, 0x4D, 0x4E, 0x4F, 0x50, 0x51, 0x52, 0x53, 0x54,
      0x55, 0x56, 0x57, 0x58, 0x59, 0x5A, 0x21, 0x23] =
   Some ''0123456789abcdefghijklmnopqrstuvwxyzABCDEFGHIJKLMNOPQRSTUVWXYZ!#''"
  by code_simp

text \<open>
  Claim C5. When byte 31 of the file is \<open>0xFF\<close> and the headers of the record
  decode, \<open>external_header_length\<close> is 165, the value \<open>read_segd\<close> tests for (the
  byte decodes as BCD to 165, not to 255), and the external header is read with the size
  \<open>external_header_blocks\<close> of general header 2 times 32: it is the text of the
  bytes that follow the extended header, that many of them (all that are left, when fewer
  are left), the stream has advanced by them and they are the end of the header block.
  These are the headers that \<open>read_segd\<close> returns when the rest of the record
  decodes.
\<close>

theorem external_header_overflow:
  assumes "index file 31 = Inr 0xFF"
    and "read_headers utc (p0\<lparr>byte_stream := file, pos := 0, stream_closed := False\<rparr>) =
      (Inr h, p')"
  shows "gh1_external_header_length (generalh1 h) = Some 165 \<and>
         (let q = min (length file)
                (96 + 32 * gh1_n_channel_sets_per_record (generalh1 h) +
                 gh1_extended_header_length (generalh1 h) * 32);
              b = take (gh2_external_header_blocks (generalh2 h) * 32) (drop q file)
          in extrh h = decode_asc b \<and> pos p' = q + length b \<and>
             header_block p' = header_block p0 @ take (q + length b) file \<and>
             byte_stream p' = file) \<and>
         (\<forall>r p''. read_segd utc file p0 = (Inr r, p'') \<longrightarrow> res_headers r = h)"
proof -
  let ?p = "p0\<lparr>byte_stream := file, pos := 0, stream_closed := False\<rparr>"
  let ?L = "length file"
  let ?hb = "header_block p0"
  from assms(2)[unfolded read_headers_def]
  obtain gh1 gh2 gh3 sch' extdh' extrh' p1 p2 p3 p4 p5 where
    g1: "read_general_hdr1 utc ?p = (Inr gh1, p1)" and
    g2: "read_general_hdr2 p1 = (Inr gh2, p2)" and
    g3: "read_general_hdr3 p2 = (Inr gh3, p3)" and
    sl: "read_sch_loop (gh1_n_channel_sets_per_record gh1) [] p3 = (Inr sch', p4)" and
    xd: "read_extended_header (gh1_extended_header_length gh1 * 32) p4 = (Inr extdh', p5)" and
    sz: "\<exists>s. external_header_size gh1 gh2 = Inr s \<and>
           read_external_header s p5 = (Inr extrh', p')" and
    h: "h = \<lparr>generalh1 = gh1, generalh2 = gh2, generalh3 = gh3, sch = sch',
           extdh = extdh', extrh = extrh'\<rparr>"
    by (elim bindS_InrD) auto
  have s0: "byte_stream ?p = file" "pos ?p = min ?L 0"
      "header_block ?p = ?hb @ take (pos ?p) file"
    by simp_all
  from parse_after_read_prefix[OF s0, where n=32 and f="parse_general_hdr1 utc"
      and r="Inr gh1" and p'=p1] g1
  have s1: "byte_stream p1 = file" "pos p1 = min ?L (0 + 32)"
      "header_block p1 = ?hb @ take (pos p1) file"
    and b1: "parse_general_hdr1 utc (take 32 file) = Inr gh1"
    by (simp_all add: read_general_hdr1_def Let_def)
  from parse_after_read_prefix[OF s1, where n=32 and f=parse_general_hdr2
      and r="Inr gh2" and p'=p2] g2
  have s2: "byte_stream p2 = file" "pos p2 = min ?L (0 + 32 + 32)"
      "header_block p2 = ?hb @ take (pos p2) file"
    by (simp_all add: read_general_hdr2_def Let_def)
  from parse_after_read_prefix[OF s2, where n=32 and f=parse_general_hdr3
      and r="Inr gh3" and p'=p3] g3
  have s3: "byte_stream p3 = file" "pos p3 = min ?L (0 + 32 + 32 + 32)"
      "header_block p3 = ?hb @ take (pos p3) file"
    by (simp_all add: read_general_hdr3_def Let_def)
  let ?N = "gh1_n_channel_sets_per_record gh1"
  let ?E = "gh1_extended_header_length gh1 * 32"
  from read_sch_loop_prefix[OF sl s3 refl]
  have s4: "byte_stream p4 = file" "pos p4 = min ?L (0 + 32 + 32 + 32 + 32 * ?N)"
      "header_block p4 = ?hb @ take (pos p4) file"
    by simp_all
  from parse_after_read_prefix[OF s4, where n="?E" and f=parse_extended_header
      and r="Inr extdh'" and p'=p5] xd
  have s5: "byte_stream p5 = file" "pos p5 = min ?L (0 + 32 + 32 + 32 + 32 * ?N + ?E)"
      "header_block p5 = ?hb @ take (pos p5) file"
    by (simp_all add: read_extended_header_def Let_def)
  have "index (take 32 file) 31 = Inr 0xFF"
    using assms(1) by (auto simp: index_def split: if_splits)
  then have "bslice 31 32 (take 32 file) = [0xFF]"
    using bslice_index[of "take 32 file" 31 "0xFF"] by simp
  then have x: "gh1_external_header_length gh1 = Some 165"
    using parse_general_hdr1_external_header_length[OF b1] by (simp add: nibbles_def)
  then have "external_header_size gh1 gh2 = Inr (gh2_external_header_blocks gh2 * 32)"
    by (simp add: external_header_size_def)
  with sz have xr:
    "read_external_header (gh2_external_header_blocks gh2 * 32) p5 = (Inr extrh', p')"
    by auto
  let ?S = "gh2_external_header_blocks gh2 * 32"
  let ?q = "min ?L (96 + 32 * ?N + ?E)"
  let ?b = "take ?S (drop ?q file)"
  have q: "pos p5 = ?q" using s5(2) by simp
  from parse_after_read_prefix[OF s5, where n="?S" and f="\<lambda>buf. Inr (decode_asc buf) :: error + string option"
      and r="Inr extrh'" and p'="p'"] xr
  have s6: "byte_stream p' = file" "pos p' = min ?L (0 + 32 + 32 + 32 + 32 * ?N + ?E + ?S)"
      "header_block p' = ?hb @ take (pos p') file"
    and e: "extrh' = decode_asc (take ?S (drop (pos p5) file))"
    by (simp_all add: read_external_header_def Let_def)
  have l: "pos p' = ?q + length ?b"
    using s6(2) by (auto simp: min_def)
  have a: "let q = ?q; b = take ?S (drop q file)
          in extrh h = decode_asc b \<and> pos p' = q + length b \<and>
             header_block p' = ?hb @ take (q + length b) file \<and> byte_stream p' = file"
    unfolding Let_def using e s6(1,3) l by (simp only: h q segd_headers.simps)
  have b: "\<forall>r p''. read_segd utc file p0 = (Inr r, p'') \<longrightarrow> res_headers r = h"
    using read_segd_headers[of utc "file" p0] assms(2) by auto
  from x a b show ?thesis by (simp add: h)
qed

theorem external_header_overflow_witness:
  "\<exists>r p' p1.
     read_segd (\<lambda>_ _ _ _ _. None) sample_record_ext new_parser = (Inr r, p') \<and>
     read_headers (\<lambda>_ _ _ _ _. None)
       (new_parser\<lparr>byte_stream := sample_record_ext, pos := 0, stream_closed := False\<rparr>) =
       (Inr (res_headers r), p1) \<and>
     index sample_record_ext 31 = Inr 0xFF \<and>
     gh1_external_header_length (generalh1 (res_headers r)) = Some 165 \<and>
     gh2_external_header_blocks (generalh2 (res_headers r)) = 2 \<and>
     extrh (res_headers r) =
       Some ''0123456789abcdefghijklmnopqrstuvwxyzABCDEFGHIJKLMNOPQRSTUVWXYZ!#'' \<and>
     pos p1 = 736 + 64 \<and> header_block p1 = take 800 sample_record_ext"
proof -
  let ?U = "\<lambda>_ _ _ _ _. None :: error option"
  obtain r p' where d: "read_segd ?U sample_record_ext new_parser = (Inr r, p')"
    and n: "gh1_n_channel_sets_per_record (generalh1 (res_headers r)) = 1"
    and e: "gh1_extended_header_length (generalh1 (res_headers r)) = 19"
    and g: "gh2_external_header_blocks (generalh2 (res_headers r)) = 2"
    using sample_record_ext_decodes by blast
  from read_segd_headers[OF d] obtain p1 where
    h: "read_headers ?U
         (new_parser\<lparr>byte_stream := sample_record_ext, pos := 0, stream_closed := False\<rparr>) =
        (Inr (res_headers r), p1)" ..
  have i: "index sample_record_ext 31 = Inr 0xFF"
    by (simp add: index_def sample_record_ext_def)
  have l: "length sample_record_ext = 856"
    by (simp add: sample_record_ext_def)
  have b: "take 64 (drop 736 sample_record_ext) =
     [0x30, 0x31, 0x32, 0x33, 0x34, 0x35, 0x36, 0x37, 0x38, 0x39, 0x61, 0x62, 0x63, 0x64,
      0x65, 0x66, 0x67, 0x68, 0x69, 0x6A, 0x6B, 0x6C, 0x6D, 0x6E, 0x6F, 0x70, 0x71, 0x72,
      0x73, 0x74, 0x75, 0x76, 0x77, 0x78, 0x79, 0x7A, 0x41, 0x42, 0x43, 0x44, 0x45, 0x46,
      0x47, 0x48, 0x49, 0x4A, 0x4B, 0x4C, 0x4D, 0x4E, 0x4F, 0x50, 0x51, 0x52, 0x53, 0x54,
      0x55, 0x56, 0x57, 0x58, 0x59, 0x5A, 0x21, 0x23]"
    by (simp add: sample_record_ext_def)
  from external_header_overflow [OF i h]
  have "gh1_external_header_length (generalh1 (res_headers r)) = Some 165 \<and>
     extrh (res_headers r) =
       Some ''0123456789abcdefghijklmnopqrstuvwxyzABCDEFGHIJKLMNOPQRSTUVWXYZ!#'' \<and>
     pos p1 = 736 + 64 \<and> header_block p1 = take 800 sample_record_ext"
    by (simp add: Let_def n e g l b sample_external_header new_parser_def)
  with d h i g show ?thesis by blast
qed

end
